theory Spec2Isabelle
  imports Main "HOL-Library.AList" "HOL-Library.Multiset" "HOL-Library.Char_ord"
    "HOL-Library.List_Lexorder"
begin

chapter \<open>The model\<close>

section \<open>Data model\<close>

text \<open>
  The change records reported by the external tool (interface \<open>SandboxChangeEntry\<close> of the
  CLI module). A JavaScript string is modelled as a \<^typ>\<open>string\<close>, one \<^typ>\<open>char\<close> per code
  unit; an optional field (\<open>undefined\<close> or \<open>null\<close>) is \<open>None\<close>.
\<close>

record SandboxChangeEntry =
  destination :: string
  operation :: string
  source :: "string option"
  staged :: "string option"
  tmp_path :: "string option"
  error :: "string option"

text \<open>An entry with only its two required fields, for concrete examples.\<close>

definition entry :: "string \<Rightarrow> string \<Rightarrow> SandboxChangeEntry" where
  "entry d opn = \<lparr>destination = d, operation = opn, source = None, staged = None,
                   tmp_path = None, error = None\<rparr>"

text \<open>
  A JavaScript \<open>Map\<close> keeps its keys in insertion order: it is an association list with
  distinct keys. \<open>has\<close> and \<open>get\<close> look a key up, \<open>set\<close> replaces the value of a
  key in place and appends a new key at the end; this is \<^const>\<open>AList.update\<close>.
\<close>

definition has :: "('k \<times> 'v) list \<Rightarrow> 'k \<Rightarrow> bool" where
  "has m k = (map_of m k \<noteq> None)"

definition get :: "('k \<times> 'v) list \<Rightarrow> 'k \<Rightarrow> 'v option" where
  "get m k = map_of m k"

definition set_key :: "'k \<Rightarrow> 'v \<Rightarrow> ('k \<times> 'v) list \<Rightarrow> ('k \<times> 'v) list" where
  "set_key k v m = AList.update k v m"

section \<open>Grouping by operation\<close>

text \<open>
  \<^verbatim>\<open>
  function groupByOperation(changes) {
    const m = new Map();
    for (const c of changes) {
      const key = c.operation;
      if (!m.has(key)) m.set(key, []);
      m.get(key)!.push(c);
    }
    return m;
  }
  \<close>
  \<open>push\<close> mutates the array stored under the key; the entry keeps its place in the map.
\<close>

definition group_step ::
  "(string \<times> SandboxChangeEntry list) list \<Rightarrow> SandboxChangeEntry \<Rightarrow>
   (string \<times> SandboxChangeEntry list) list" where
  "group_step m c =
     (let key = operation c;
          m1 = (if \<not> has m key then set_key key [] m else m)
      in AList.map_entry key (\<lambda>l. l @ [c]) m1)"

definition groupByOperation ::
  "SandboxChangeEntry list \<Rightarrow> (string \<times> SandboxChangeEntry list) list" where
  "groupByOperation changes = foldl group_step [] changes"

text \<open>The keys of a list in the order of their first occurrence.\<close>

primrec firstSeen :: "'a list \<Rightarrow> 'a list" where
  "firstSeen [] = []"
| "firstSeen (x # xs) = x # filter (\<lambda>y. y \<noteq> x) (firstSeen xs)"

section \<open>Directory hierarchy\<close>

text \<open>
  The nested \<open>Map\<close> built by \<open>buildDirectoryHierarchy\<close>: a value is either a change entry
  (a leaf) or another \<open>Map\<close> (an interior node).
\<close>

datatype DirNode = Leaf SandboxChangeEntry | Dir "(string \<times> DirNode) list"

text \<open>\<open>String.prototype.split\<close> with a one-character separator: never an empty result.\<close>

fun split :: "char \<Rightarrow> string \<Rightarrow> string list" where
  "split sep [] = [[]]"
| "split sep (x # xs) =
     (if x = sep then [] # split sep xs
      else (case split sep xs of [] \<Rightarrow> [[x]] | w # ws \<Rightarrow> (x # w) # ws))"

text \<open>\<open>Array.prototype.join\<close> with a one-character separator.\<close>

fun join :: "char \<Rightarrow> string list \<Rightarrow> string" where
  "join sep [] = []"
| "join sep [p] = p"
| "join sep (p # ps) = p @ sep # join sep ps"

definition startsWith :: "string \<Rightarrow> string \<Rightarrow> bool" where
  "startsWith s p = (take (length p) s = p)"

definition substring :: "string \<Rightarrow> nat \<Rightarrow> string" where
  "substring s n = drop n s"

text \<open>
  \<^verbatim>\<open>
  const path = cwd && c.destination.startsWith(cwd + '/')
    ? c.destination.substring(cwd.length + 1)
    : c.destination;
  const parts = path.split('/').filter((p) => p.length > 0);
  \<close>
  An undefined or empty \<open>cwd\<close> is falsy: nothing is stripped then.
\<close>

definition relativePath :: "string option \<Rightarrow> string \<Rightarrow> string" where
  "relativePath cwd dest =
     (case cwd of
        None \<Rightarrow> dest
      | Some w \<Rightarrow>
          if w \<noteq> [] \<and> startsWith dest (w @ ''/'') then substring dest (length w + 1)
          else dest)"

definition pathParts :: "string option \<Rightarrow> string \<Rightarrow> string list" where
  "pathParts cwd dest = filter (\<lambda>p. length p > 0) (split CHR ''/'' (relativePath cwd dest))"

text \<open>
  The inner loop over \<open>parts\<close>, started at \<open>cursor\<close>:
  \<^verbatim>\<open>
  for (let i = 0; i < parts.length; i++) {
    const part = parts[i];
    if (!cursor.has(part)) cursor.set(part, new Map());
    if (i === parts.length - 1) {
      cursor.set(part, c);
    } else {
      const next = cursor.get(part);
      if (next instanceof Map) { cursor = next; }
      else { const m = new Map(); cursor.set(part, m); cursor = m; }
    }
  }
  \<close>
  The maps are mutated in place; the model returns the map \<open>cursor\<close> as it is after the
  loop. Descending into \<open>next\<close> and mutating it leaves it stored under \<open>part\<close> at the
  same position, which is \<open>set_key part (Dir \<dots>)\<close> on a key that is present.
\<close>

definition ensureKey :: "string \<Rightarrow> (string \<times> DirNode) list \<Rightarrow> (string \<times> DirNode) list" where
  "ensureKey part cursor = (if \<not> has cursor part then set_key part (Dir []) cursor else cursor)"

definition nextMap :: "string \<Rightarrow> (string \<times> DirNode) list \<Rightarrow> (string \<times> DirNode) list" where
  "nextMap part cursor = (case get cursor part of Some (Dir next) \<Rightarrow> next | _ \<Rightarrow> [])"

fun insertParts ::
  "string list \<Rightarrow> SandboxChangeEntry \<Rightarrow> (string \<times> DirNode) list \<Rightarrow>
   (string \<times> DirNode) list" where
  "insertParts [] c cursor = cursor"
| "insertParts [part] c cursor = set_key part (Leaf c) (ensureKey part cursor)"
| "insertParts (part # rest) c cursor =
     set_key part (Dir (insertParts rest c (nextMap part (ensureKey part cursor))))
       (ensureKey part cursor)"

definition buildRoot ::
  "SandboxChangeEntry list \<Rightarrow> string option \<Rightarrow> (string \<times> DirNode) list" where
  "buildRoot changes cwd =
     foldl (\<lambda>root c. insertParts (pathParts cwd (destination c)) c root) [] changes"

text \<open>Observations of a hierarchy: its leaves with their paths, every name in it, and the
  node reached by a path.\<close>

fun leaves :: "(string \<times> DirNode) list \<Rightarrow> (string list \<times> SandboxChangeEntry) list" where
  "leaves [] = []"
| "leaves ((k, Leaf c) # r) = ([k], c) # leaves r"
| "leaves ((k, Dir m) # r) = map (\<lambda>(p, c). (k # p, c)) (leaves m) @ leaves r"

fun names :: "(string \<times> DirNode) list \<Rightarrow> string list" where
  "names [] = []"
| "names ((k, Leaf c) # r) = k # names r"
| "names ((k, Dir m) # r) = k # names m @ names r"

fun lookupPath :: "(string \<times> DirNode) list \<Rightarrow> string list \<Rightarrow> DirNode option" where
  "lookupPath m [] = Some (Dir m)"
| "lookupPath m [p] = get m p"
| "lookupPath m (p # ps) = (case get m p of Some (Dir sub) \<Rightarrow> lookupPath sub ps | _ \<Rightarrow> None)"

text \<open>No key occurs twice in a map of the hierarchy, at any level.\<close>

fun distinctKeys :: "(string \<times> DirNode) list \<Rightarrow> bool" where
  "distinctKeys [] = True"
| "distinctKeys ((k, Leaf c) # r) = (k \<notin> fst ` set r \<and> distinctKeys r)"
| "distinctKeys ((k, Dir m) # r) = (k \<notin> fst ` set r \<and> distinctKeys m \<and> distinctKeys r)"

section \<open>CLI gateway\<close>

text \<open>
  What a spawned child process does, as far as the gateway observes it: the \<open>data\<close> events
  of its two output streams, in order, and the code of its \<open>close\<close> event, which is \<open>null\<close>
  (here \<open>None\<close>) when the process was terminated by a signal. The gateway listens to
  nothing else.
\<close>

datatype ChildEvent = StdoutData string | StderrData string

record ChildRun =
  events :: "ChildEvent list"
  closeCode :: "int option"

text \<open>
  A value that \<open>JSON.parse\<close> returns. The functions below never compute with a number, so
  the integers stand for all numbers.
\<close>

datatype json =
  JNull | JBool bool | JNumber int | JString string | JArray "json list"
| JObject "(string \<times> json) list"

text \<open>
  The surroundings of a call: \<open>cp.spawn\<close>, the configured binary (\<open>getBinaryPath()\<close>), the
  arguments derived from the settings (\<open>buildBaseArgs()\<close>) and \<open>JSON.parse\<close>, which yields
  \<open>None\<close> where it throws a \<open>SyntaxError\<close>.
\<close>

record CliEnv =
  spawn :: "string \<Rightarrow> string list \<Rightarrow> string option \<Rightarrow> ChildRun"
  binaryPath :: string
  baseArgs :: "string list"
  jsonParse :: "string \<Rightarrow> json option"

record ExecResult =
  stdout :: string
  stderr :: string
  code :: int

datatype error = Error string

text \<open>
  \<^verbatim>\<open>
  child.stdout.on('data', (d) => (stdout += d.toString()))
  child.stderr.on('data', (d) => (stderr += d.toString()))
  child.on('close', (code) => resolve({ stdout, stderr, code: code ?? 0 }));
  \<close>
\<close>

fun stdoutChunks :: "ChildEvent list \<Rightarrow> string" where
  "stdoutChunks [] = []"
| "stdoutChunks (StdoutData d # es) = d @ stdoutChunks es"
| "stdoutChunks (StderrData d # es) = stdoutChunks es"

fun stderrChunks :: "ChildEvent list \<Rightarrow> string" where
  "stderrChunks [] = []"
| "stderrChunks (StdoutData d # es) = stderrChunks es"
| "stderrChunks (StderrData d # es) = d @ stderrChunks es"

definition execFile :: "CliEnv \<Rightarrow> string \<Rightarrow> string list \<Rightarrow> string option \<Rightarrow> ExecResult" where
  "execFile env bin args cwd =
     (let child = spawn env bin args cwd
      in \<lparr>stdout = stdoutChunks (events child),
          stderr = stderrChunks (events child),
          code = (case closeCode child of None \<Rightarrow> 0 | Some n \<Rightarrow> n)\<rparr>)"

text \<open>\<open>a || b\<close> on strings: the empty string is falsy.\<close>

definition orElse :: "string \<Rightarrow> string \<Rightarrow> string" where
  "orElse a b = (if a \<noteq> [] then a else b)"

text \<open>
  Reading a property of a parsed value, for the keys read here (\<open>changes\<close>, \<open>name\<close>,
  \<open>storage_dir\<close>, \<open>upper_cwd\<close>, \<open>overlay_cwd\<close>): on \<open>null\<close> the read throws a \<open>TypeError\<close>
  (\<open>None\<close>), on an object it gives the member or \<open>undefined\<close>, on any other value
  \<open>undefined\<close>.
\<close>

definition getProp :: "json \<Rightarrow> string \<Rightarrow> json option option" where
  "getProp v k =
     (case v of
        JNull \<Rightarrow> None
      | JObject members \<Rightarrow> Some (map_of members k)
      | _ \<Rightarrow> Some None)"

record SandboxConfigInfo =
  name :: "json option"
  storage_dir :: "json option"
  upper_cwd :: "json option"
  overlay_cwd :: "json option"

definition configParseError :: "ExecResult \<Rightarrow> error" where
  "configParseError res =
     Error (''Failed to parse sandbox config JSON: '' @ orElse (stderr res) (stdout res))"

definition statusParseError :: "ExecResult \<Rightarrow> error" where
  "statusParseError res =
     Error (''Failed to parse sandbox status JSON: '' @ orElse (stderr res) (stdout res))"

definition fetchConfig :: "CliEnv \<Rightarrow> string option \<Rightarrow> error + SandboxConfigInfo" where
  "fetchConfig env cwd =
     (let bin = binaryPath env;
          args = baseArgs env @
            [''config'', ''--json'', ''name'', ''storage_dir'', ''upper_cwd'', ''overlay_cwd''];
          res = execFile env bin args cwd
      in case jsonParse env (stdout res) of
           None \<Rightarrow> Inl (configParseError res)
         | Some parsed \<Rightarrow>
             (case (getProp parsed ''name'', getProp parsed ''storage_dir'',
                    getProp parsed ''upper_cwd'', getProp parsed ''overlay_cwd'') of
                (Some nm, Some sd, Some uc, Some oc) \<Rightarrow>
                  Inr \<lparr>name = nm, storage_dir = sd, upper_cwd = uc, overlay_cwd = oc\<rparr>
              | _ \<Rightarrow> Inl (configParseError res)))"

text \<open>
  \<open>parsed.changes ?? []\<close>: the empty array when the member is \<open>undefined\<close> or \<open>null\<close>, the
  member otherwise. The cast to \<open>SandboxStatusJson\<close> checks nothing, so the value
  returned is whatever JSON value the member holds.
\<close>

definition fetchStatus :: "CliEnv \<Rightarrow> string option \<Rightarrow> error + json" where
  "fetchStatus env cwd =
     (let bin = binaryPath env;
          args = baseArgs env @ [''status'', ''--json''];
          res = execFile env bin args cwd
      in case jsonParse env (stdout res) of
           None \<Rightarrow> Inl (statusParseError res)
         | Some parsed \<Rightarrow>
             (case getProp parsed ''changes'' of
                None \<Rightarrow> Inl (statusParseError res)
              | Some None \<Rightarrow> Inr (JArray [])
              | Some (Some JNull) \<Rightarrow> Inr (JArray [])
              | Some (Some v) \<Rightarrow> Inr v))"

text \<open>The calls that check the exit code: \<open>if (res.code !== 0) throw new Error(res.stderr || res.stdout)\<close>.\<close>

definition runAccept :: "CliEnv \<Rightarrow> string list \<Rightarrow> string option \<Rightarrow> error + unit" where
  "runAccept env patterns cwd =
     (let bin = binaryPath env;
          args = baseArgs env @ [''accept''] @ patterns;
          res = execFile env bin args cwd
      in if code res \<noteq> 0 then Inl (Error (orElse (stderr res) (stdout res))) else Inr ())"

definition runReject :: "CliEnv \<Rightarrow> string list \<Rightarrow> string option \<Rightarrow> error + unit" where
  "runReject env patterns cwd =
     (let bin = binaryPath env;
          args = baseArgs env @ [''reject''] @ patterns;
          res = execFile env bin args cwd
      in if code res \<noteq> 0 then Inl (Error (orElse (stderr res) (stdout res))) else Inr ())"

definition runDiff :: "CliEnv \<Rightarrow> string list \<Rightarrow> string option \<Rightarrow> error + string" where
  "runDiff env patterns cwd =
     (let bin = binaryPath env;
          args = baseArgs env @ [''diff''] @ patterns;
          res = execFile env bin args cwd
      in if code res \<noteq> 0 then Inl (Error (orElse (stderr res) (stdout res)))
         else Inr (stdout res))"

definition runSync :: "CliEnv \<Rightarrow> string option \<Rightarrow> error + unit" where
  "runSync env cwd =
     (let bin = binaryPath env;
          args = baseArgs env @ [''sync''];
          res = execFile env bin args cwd
      in if code res \<noteq> 0 then Inl (Error (orElse (stderr res) (stdout res))) else Inr ())"

definition runStop :: "CliEnv \<Rightarrow> string option \<Rightarrow> error + unit" where
  "runStop env cwd =
     (let bin = binaryPath env;
          args = baseArgs env @ [''stop''];
          res = execFile env bin args cwd
      in if code res \<noteq> 0 then Inl (Error (orElse (stderr res) (stdout res))) else Inr ())"

definition runDelete :: "CliEnv \<Rightarrow> string option \<Rightarrow> error + unit" where
  "runDelete env cwd =
     (let bin = binaryPath env;
          args = baseArgs env @ [''delete'', ''-y''];
          res = execFile env bin args cwd
      in if code res \<noteq> 0 then Inl (Error (orElse (stderr res) (stdout res))) else Inr ())"

text \<open>
  \<open>spawnDiffStream\<close> hands every chunk and the close code to the handlers that are given
  (\<open>handlers.onStdout?.(...)\<close>). A handler acts on the state of its owner, here \<open>'s\<close>.
  \<^verbatim>\<open>
  child.stdout.on('data', (d) => handlers.onStdout?.(d.toString()));
  child.stderr.on('data', (d) => handlers.onStderr?.(d.toString()));
  child.on('close', (code) => handlers.onClose?.(code ?? 0));
  \<close>
\<close>

record 's Handlers =
  onStdout :: "(string \<Rightarrow> 's \<Rightarrow> 's) option"
  onStderr :: "(string \<Rightarrow> 's \<Rightarrow> 's) option"
  onClose :: "(int \<Rightarrow> 's \<Rightarrow> 's) option"

definition call :: "('a \<Rightarrow> 's \<Rightarrow> 's) option \<Rightarrow> 'a \<Rightarrow> 's \<Rightarrow> 's" where
  "call h x s = (case h of None \<Rightarrow> s | Some f \<Rightarrow> f x s)"

fun deliver :: "'s Handlers \<Rightarrow> ChildEvent list \<Rightarrow> 's \<Rightarrow> 's" where
  "deliver handlers [] s = s"
| "deliver handlers (StdoutData d # es) s = deliver handlers es (call (onStdout handlers) d s)"
| "deliver handlers (StderrData d # es) s = deliver handlers es (call (onStderr handlers) d s)"

definition spawnDiffStream ::
  "CliEnv \<Rightarrow> string list \<Rightarrow> 's Handlers \<Rightarrow> string option \<Rightarrow> 's \<Rightarrow> 's" where
  "spawnDiffStream env patterns handlers cwd s =
     (let bin = binaryPath env;
          args = baseArgs env @ [''diff''] @ patterns;
          child = spawn env bin args cwd
      in call (onClose handlers) (case closeCode child of None \<Rightarrow> 0 | Some n \<Rightarrow> n)
           (deliver handlers (events child) s))"

text \<open>The same surroundings, with every child process closing with the code \<open>k\<close>.\<close>

definition withCloseCode :: "int option \<Rightarrow> CliEnv \<Rightarrow> CliEnv" where
  "withCloseCode k env = env\<lparr>spawn := \<lambda>bin args cwd. (spawn env bin args cwd)\<lparr>closeCode := k\<rparr>\<rparr>"

text \<open>The run of the \<open>status\<close> and of the \<open>config\<close> query.\<close>

definition statusRun :: "CliEnv \<Rightarrow> string option \<Rightarrow> ExecResult" where
  "statusRun env cwd = execFile env (binaryPath env) (baseArgs env @ [''status'', ''--json'']) cwd"

definition configRun :: "CliEnv \<Rightarrow> string option \<Rightarrow> ExecResult" where
  "configRun env cwd =
     execFile env (binaryPath env)
       (baseArgs env @ [''config'', ''--json'', ''name'', ''storage_dir'', ''upper_cwd'', ''overlay_cwd''])
       cwd"

text \<open>
  What the exit-code rule asks of a child run: an error carrying the captured \<open>stderr\<close>, or
  the captured \<open>stdout\<close> when \<open>stderr\<close> is empty, exactly when the exit code is a number
  other than zero.
\<close>

definition exitCodeRule :: "ChildRun \<Rightarrow> 'a \<Rightarrow> error + 'a" where
  "exitCodeRule child v =
     (if \<exists>n. closeCode child = Some n \<and> n \<noteq> 0
      then Inl (Error (if stderrChunks (events child) \<noteq> [] then stderrChunks (events child)
                       else stdoutChunks (events child)))
      else Inr v)"

text \<open>
  Surroundings for the examples. \<open>parseExample\<close> agrees with \<open>JSON.parse\<close> on the texts
  \<open>null\<close> and \<open>{}\<close> and on every text that is not JSON; the examples use no other text.
\<close>

definition parseExample :: "string \<Rightarrow> json option" where
  "parseExample s =
     (if s = ''null'' then Some JNull else if s = ''{}'' then Some (JObject []) else None)"

definition exampleEnv :: "string \<Rightarrow> string \<Rightarrow> int option \<Rightarrow> CliEnv" where
  "exampleEnv out err k =
     \<lparr>spawn = (\<lambda>bin args cwd. \<lparr>events = [StdoutData out, StderrData err], closeCode = k\<rparr>),
      binaryPath = ''sandbox'', baseArgs = [], jsonParse = parseExample\<rparr>"

section \<open>Tree presentation\<close>

text \<open>
  \<open>SandboxNode\<close> (a \<open>vscode.TreeItem\<close> with children, a target path and an operation).
  \<open>vscode.TreeItemCollapsibleState\<close> is the enum \<open>None = 0, Collapsed = 1, Expanded = 2\<close>; a
  \<open>ThemeIcon\<close> is its identifier; a file \<open>Uri\<close> is its path.
\<close>

datatype CollapsibleState = CollapsibleNone | Collapsed | Expanded

record Command =
  title :: string
  command :: string
  arguments :: "string list list"

record TreeItem =
  label :: string
  collapsibleState :: CollapsibleState
  targetPath :: "string option"
  op :: "string option"
  contextValue :: string
  itemCommand :: "Command option"
  iconPath :: "string option"
  resourceUri :: "string option"
  tooltip :: "string option"
  accessibilityInformation :: "(string \<times> string) option"

datatype SandboxNode = SandboxNode (item: TreeItem) (children: "SandboxNode list option")

text \<open>
  The constructor of \<open>SandboxNode\<close>:
  \<^verbatim>\<open>
  if (op === 'folder') this.contextValue = 'folder';
  else if (op === 'actions' || op === 'action' || op === 'workspace') this.contextValue = op;
  else this.contextValue = 'change';
  if (!collapsibleState || collapsibleState === vscode.TreeItemCollapsibleState.None)
    this.command = { title: 'Diff', command: 'sandbox.diff',
                     arguments: [targetPath ? [targetPath] : []] };
  \<close>
\<close>

definition newSandboxNode ::
  "string \<Rightarrow> CollapsibleState \<Rightarrow> string option \<Rightarrow> string option \<Rightarrow> SandboxNode" where
  "newSandboxNode lbl state tp opn =
     SandboxNode
       \<lparr>label = lbl, collapsibleState = state, targetPath = tp, op = opn,
        contextValue =
          (if opn = Some ''folder'' then ''folder''
           else if opn = Some ''actions'' then ''actions''
           else if opn = Some ''action'' then ''action''
           else if opn = Some ''workspace'' then ''workspace''
           else ''change''),
        itemCommand =
          (if state = CollapsibleNone
           then Some \<lparr>title = ''Diff'', command = ''sandbox.diff'',
                       arguments = [case tp of None \<Rightarrow> [] | Some p \<Rightarrow> if p \<noteq> [] then [p] else []]\<rparr>
           else None),
        iconPath = None, resourceUri = None, tooltip = None,
        accessibilityInformation = None\<rparr>
       None"

definition updItem :: "(TreeItem \<Rightarrow> TreeItem) \<Rightarrow> SandboxNode \<Rightarrow> SandboxNode" where
  "updItem f n = SandboxNode (f (item n)) (children n)"

definition setChildren :: "SandboxNode list \<Rightarrow> SandboxNode \<Rightarrow> SandboxNode" where
  "setChildren cs n = SandboxNode (item n) (Some cs)"

definition changeIcon :: "string \<Rightarrow> string" where
  "changeIcon opn =
     (if opn = ''create'' then ''diff-added''
      else if opn = ''modify'' then ''diff-modified''
      else if opn = ''remove'' then ''diff-removed''
      else if opn = ''rename'' then ''diff-renamed''
      else if opn = ''error'' then ''error''
      else ''question'')"

definition nodeFromChange :: "SandboxChangeEntry \<Rightarrow> SandboxNode" where
  "nodeFromChange c =
     (let lbl = (case source c of
                   Some s \<Rightarrow> if operation c = ''rename'' \<and> s \<noteq> []
                             then s @ '' -> '' @ destination c else destination c
                 | None \<Rightarrow> destination c);
          n = newSandboxNode lbl CollapsibleNone (Some (destination c)) (Some (operation c))
      in updItem (\<lambda>i. i\<lparr>contextValue := ''change'', resourceUri := Some (destination c),
                          iconPath := Some (changeIcon (operation c))\<rparr>) n)"

text \<open>
  \<open>entries.sort((a, b) => a[0].localeCompare(b[0]))\<close>. \<open>Array.prototype.sort\<close> is stable;
  \<open>localeCompare\<close> belongs to the platform and its locale, and is a parameter here. With a
  comparator that is a total preorder every stable sort gives the result of this insertion
  sort.
\<close>

fun insort_by :: "('a \<Rightarrow> 'a \<Rightarrow> int) \<Rightarrow> 'a \<Rightarrow> 'a list \<Rightarrow> 'a list" where
  "insort_by cmp x [] = [x]"
| "insort_by cmp x (y # ys) = (if cmp x y \<le> 0 then x # y # ys else y # insort_by cmp x ys)"

definition sort_by :: "('a \<Rightarrow> 'a \<Rightarrow> int) \<Rightarrow> 'a list \<Rightarrow> 'a list" where
  "sort_by cmp xs = foldr (insort_by cmp) xs []"

definition sortEntries ::
  "(string \<Rightarrow> string \<Rightarrow> int) \<Rightarrow> (string \<times> DirNode) list \<Rightarrow> (string \<times> DirNode) list" where
  "sortEntries localeCompare tree = sort_by (\<lambda>a b. localeCompare (fst a) (fst b)) tree"

lemma set_insort_by: "set (insort_by cmp x xs) = insert x (set xs)"
  by (induction xs) auto

lemma set_sort_by: "set (sort_by cmp xs) = set xs"
  by (induction xs) (auto simp: sort_by_def set_insort_by)

lemma set_sortEntries: "set (sortEntries lc tree) = set tree"
  by (simp add: sortEntries_def set_sort_by)

lemma size_entry: "(nm, Dir sub) \<in> set tree \<Longrightarrow> size (Dir sub) < size (Dir tree)"
  by (induction tree) auto

text \<open>
  \<^verbatim>\<open>
  const toNodes = (tree, prefix = '') => {
    const entries = Array.from(tree.entries());
    entries.sort((a, b) => a[0].localeCompare(b[0]));
    const nodes = [];
    for (const [name, value] of entries) {
      if (value instanceof Map) {
        const folderPath = prefix ? `${prefix}/${name}` : name;
        const node = new SandboxNode(name, Collapsed, folderPath, 'folder');
        node.iconPath = new vscode.ThemeIcon('folder');
        node.command = { title: 'Diff', command: 'sandbox.diff',
                         arguments: [[`${folderPath}/**`]] };
        node.children = toNodes(value, folderPath);
        nodes.push(node);
      } else {
        nodes.push(nodeFromChange(value));
      }
    }
    return nodes;
  };
  \<close>
\<close>

definition folderPathOf :: "string \<Rightarrow> string \<Rightarrow> string" where
  "folderPathOf prefix nm = (if prefix \<noteq> [] then prefix @ ''/'' @ nm else nm)"

definition folderNode :: "string \<Rightarrow> string \<Rightarrow> SandboxNode list \<Rightarrow> SandboxNode" where
  "folderNode nm folderPath kids =
     setChildren kids
       (updItem (\<lambda>i. i\<lparr>iconPath := Some ''folder'',
                          itemCommand := Some \<lparr>title = ''Diff'', command = ''sandbox.diff'',
                                                arguments = [[folderPath @ ''/**'']]\<rparr>\<rparr>)
          (newSandboxNode nm Collapsed (Some folderPath) (Some ''folder'')))"

function toNodes ::
  "(string \<Rightarrow> string \<Rightarrow> int) \<Rightarrow> (string \<times> DirNode) list \<Rightarrow> string \<Rightarrow> SandboxNode list" where
  "toNodes localeCompare tree prefix =
     map (\<lambda>(nm, v).
            case v of
              Dir sub \<Rightarrow>
                folderNode nm (folderPathOf prefix nm)
                  (toNodes localeCompare sub (folderPathOf prefix nm))
            | Leaf c \<Rightarrow> nodeFromChange c)
         (sortEntries localeCompare tree)"
  by pat_completeness auto
termination
proof (relation "measure (\<lambda>(lc, tree, prefix). size (Dir tree))")
  show "wf (measure (\<lambda>(lc, tree, prefix). size (Dir tree)))"
    by simp
next
  fix localeCompare :: "string \<Rightarrow> string \<Rightarrow> int"
    and tree :: "(string \<times> DirNode) list" and prefix x nm v sub
  assume "x \<in> set (sortEntries localeCompare tree)" "(nm, v) = x" "v = Dir sub"
  then have "(nm, Dir sub) \<in> set tree"
    by (simp add: set_sortEntries)
  then show "((localeCompare, sub, folderPathOf prefix nm), (localeCompare, tree, prefix))
        \<in> measure (\<lambda>(lc, tree, prefix). size (Dir tree))"
    using size_entry [of nm sub tree] by simp
qed

declare toNodes.simps [simp del]

definition buildDirectoryHierarchy ::
  "(string \<Rightarrow> string \<Rightarrow> int) \<Rightarrow> SandboxChangeEntry list \<Rightarrow> string option \<Rightarrow> SandboxNode list" where
  "buildDirectoryHierarchy localeCompare changes cwd =
     toNodes localeCompare (buildRoot changes cwd) []"

text \<open>
  The leaves of a rendered forest, each with the labels of the folder nodes above it, from
  the root down.
\<close>

fun nodeLeaves :: "SandboxNode \<Rightarrow> (string list \<times> SandboxNode) list" where
  "nodeLeaves (SandboxNode i None) = [([], SandboxNode i None)]"
| "nodeLeaves (SandboxNode i (Some kids)) =
     map (\<lambda>(p, n). (label i # p, n)) (concat (map nodeLeaves kids))"

definition forestLeaves :: "SandboxNode list \<Rightarrow> (string list \<times> SandboxNode) list" where
  "forestLeaves nodes = concat (map nodeLeaves nodes)"

text \<open>Decimal digits of a length, as the template literal \<open>`${op} (${list.length})`\<close> prints it.\<close>

fun digits :: "nat \<Rightarrow> string" where
  "digits n =
     (if n < 10 then [char_of (48 + n)] else digits (n div 10) @ [char_of (48 + n mod 10)])"

declare digits.simps [simp del]

definition makeAction :: "string \<Rightarrow> string \<Rightarrow> string \<Rightarrow> SandboxNode" where
  "makeAction lbl cmd icon =
     updItem (\<lambda>i. i\<lparr>iconPath := Some icon,
                        itemCommand := Some \<lparr>title = lbl, command = cmd, arguments = []\<rparr>\<rparr>)
       (newSandboxNode lbl CollapsibleNone None (Some ''action''))"

definition buildActionsGroupNode :: "string \<Rightarrow> bool \<Rightarrow> bool \<Rightarrow> SandboxNode" where
  "buildActionsGroupNode cwd inOverlayRoot hasOriginalWorkspace =
     (let grp = updItem (\<lambda>i. i\<lparr>iconPath := Some ''tools''\<rparr>)
                  (newSandboxNode ''Actions'' Expanded None (Some ''actions''))
      in if inOverlayRoot
         then setChildren
                ([makeAction ''Enter Sandbox'' ''sandbox.enter'' ''terminal''] @
                 (if hasOriginalWorkspace
                  then [makeAction ''Restore Workspace Folder'' ''sandbox.restoreWorkspaceFolder''
                          ''folder'']
                  else []))
                grp
         else setChildren
                [makeAction ''Enter Sandbox'' ''sandbox.enter'' ''terminal'',
                 makeAction ''Refresh'' ''sandbox.refresh'' ''refresh'',
                 makeAction ''Sync'' ''sandbox.sync'' ''sync'',
                 makeAction ''Stop'' ''sandbox.stop'' ''debug-stop'',
                 makeAction ''Delete'' ''sandbox.delete'' ''trash'',
                 makeAction ''Add Overlay as Folder'' ''sandbox.addOverlayFolder'' ''new-folder'',
                 makeAction ''Remove Overlay Folder'' ''sandbox.removeOverlayFolder'' ''folder'',
                 makeAction ''Use Overlay in Explorer'' ''sandbox.useOverlayInExplorer''
                   ''folder-opened'',
                 makeAction ''Restore Workspace Folder'' ''sandbox.restoreWorkspaceFolder''
                   ''folder'',
                 makeAction ''Show Config'' ''sandbox.showConfig'' ''gear'']
                grp)"

definition buildOverlayIndicatorNode :: SandboxNode where
  "buildOverlayIndicatorNode =
     updItem (\<lambda>i. i\<lparr>iconPath := Some ''layers-active'',
          tooltip := Some (''You are viewing the sandbox overlay. Use \"Restore Workspace Folder\" '' @
                           ''to return to your original workspace.''),
          accessibilityInformation := Some (''Overlay active'', ''text'')\<rparr>)
       (newSandboxNode ''Overlay active'' CollapsibleNone None (Some ''info''))"

text \<open>
  The two loops of \<open>getChildren\<close> over the groups:
  \<^verbatim>\<open>
  const order = ['error', 'remove', 'rename', 'modify', 'create'];
  for (const op of order) {
    const list = groups.get(op);
    if (!list || list.length === 0) continue;
    const label = `${op} (${list.length})`;
    const node = new SandboxNode(label, Collapsed, undefined, op);
    node.children = buildDirectoryHierarchy(list, cwd);
    nodes.push(node);
  }
  for (const [op, list] of groups) {
    if (order.includes(op)) continue;
    ... the same four lines ...
  }
  \<close>
\<close>

definition order :: "string list" where
  "order = [''error'', ''remove'', ''rename'', ''modify'', ''create'']"

definition groupNode ::
  "(string \<Rightarrow> string \<Rightarrow> int) \<Rightarrow> string \<Rightarrow> SandboxChangeEntry list \<Rightarrow> string \<Rightarrow> SandboxNode" where
  "groupNode localeCompare opn list cwd =
     setChildren (buildDirectoryHierarchy localeCompare list (Some cwd))
       (newSandboxNode (opn @ '' ('' @ digits (length list) @ '')'') Collapsed None (Some opn))"

definition groupNodes ::
  "(string \<Rightarrow> string \<Rightarrow> int) \<Rightarrow> (string \<times> SandboxChangeEntry list) list \<Rightarrow> string \<Rightarrow>
   SandboxNode list" where
  "groupNodes localeCompare groups cwd =
     concat (map (\<lambda>opn. case get groups opn of
                          None \<Rightarrow> []
                        | Some list \<Rightarrow>
                            if length list = 0 then [] else [groupNode localeCompare opn list cwd])
                 order) @
     map (\<lambda>(opn, list). groupNode localeCompare opn list cwd)
       (filter (\<lambda>(opn, list). opn \<notin> set order) groups)"

text \<open>
  The body shared by the root of a single-folder workspace and by the expansion of a
  workspace node: \<open>status\<close> is the outcome of \<open>fetchStatus(cwd)\<close> at the type its signature
  declares.
\<close>

definition errorNode :: "string \<Rightarrow> SandboxNode" where
  "errorNode message =
     updItem (\<lambda>i. i\<lparr>iconPath := Some ''error''\<rparr>)
       (newSandboxNode message CollapsibleNone None (Some ''error''))"

definition statusNodes ::
  "(string \<Rightarrow> string \<Rightarrow> int) \<Rightarrow> bool \<Rightarrow> bool \<Rightarrow> string \<Rightarrow> error + SandboxChangeEntry list \<Rightarrow>
   SandboxNode list" where
  "statusNodes localeCompare inOverlayRoot hasOriginalWorkspace cwd status =
     (case status of
        Inl (Error message) \<Rightarrow> [errorNode message]
      | Inr changes \<Rightarrow>
          (if inOverlayRoot then [buildOverlayIndicatorNode] else []) @
          [buildActionsGroupNode cwd inOverlayRoot hasOriginalWorkspace] @
          groupNodes localeCompare (groupByOperation changes) cwd)"

record WorkspaceFolder =
  folderName :: string
  fsPath :: string

record Provider =
  workspaceFolder :: "WorkspaceFolder option"
  inOverlayRoot :: bool
  hasOriginalWorkspace :: bool

definition getChildren ::
  "(string \<Rightarrow> string \<Rightarrow> int) \<Rightarrow> (string \<Rightarrow> error + SandboxChangeEntry list) \<Rightarrow>
   WorkspaceFolder list \<Rightarrow> Provider \<Rightarrow> SandboxNode option \<Rightarrow> SandboxNode list" where
  "getChildren localeCompare fetch folders this element =
     (case element of
        None \<Rightarrow>
          if length folders \<le> 1
          then (case (case workspaceFolder this of
                        Some f \<Rightarrow> Some f
                      | None \<Rightarrow> (case folders of [] \<Rightarrow> None | f # _ \<Rightarrow> Some f)) of
                  None \<Rightarrow> []
                | Some f \<Rightarrow>
                    if fsPath f = [] then []
                    else statusNodes localeCompare (inOverlayRoot this)
                           (hasOriginalWorkspace this) (fsPath f) (fetch (fsPath f)))
          else map (\<lambda>f. updItem (\<lambda>i. i\<lparr>iconPath := Some ''root-folder''\<rparr>)
                            (newSandboxNode (folderName f) Collapsed (Some (fsPath f))
                               (Some ''workspace'')))
                 folders
      | Some el \<Rightarrow>
          (case targetPath (item el) of
             Some p \<Rightarrow>
               if op (item el) = Some ''workspace'' \<and> p \<noteq> []
               then statusNodes localeCompare (inOverlayRoot this) (hasOriginalWorkspace this)
                      p (fetch p)
               else (case children el of None \<Rightarrow> [] | Some cs \<Rightarrow> cs)
           | None \<Rightarrow> (case children el of None \<Rightarrow> [] | Some cs \<Rightarrow> cs)))"

text \<open>The order in which the claim lists the groups.\<close>

definition expectedGroupOrder :: "SandboxChangeEntry list \<Rightarrow> string list" where
  "expectedGroupOrder changes =
     filter (\<lambda>k. k \<in> set (map operation changes))
       [''error'', ''remove'', ''rename'', ''modify'', ''create''] @
     filter (\<lambda>k. k \<notin> set [''error'', ''remove'', ''rename'', ''modify'', ''create''])
       (firstSeen (map operation changes))"

text \<open>
  A comparator for the examples: strings compared code unit by code unit. It is a total
  order, as every \<open>localeCompare\<close> is a total preorder.
\<close>

definition codeUnitCompare :: "string \<Rightarrow> string \<Rightarrow> int" where
  "codeUnitCompare a b = (if a < b then - 1 else if a = b then 0 else 1)"

section \<open>Diff resolver\<close>





















section \<open>Patterns\<close>

text \<open>
  \<^verbatim>\<open>
  function globToRegex(glob: string): RegExp {
    // Very lightweight glob -> regex for ** and * patterns
    const escaped = glob.replace(/[.+^${}()|[\]\\]/g, '\\$&')
      .replace(/\*\*/g, '::DOUBLE_STAR::')
      .replace(/\*/g, '[^/]*')
      .replace(/::DOUBLE_STAR::/g, '.*');
    return new RegExp('^' + escaped + '$');
  }
  \<close>
  The first \<open>replace\<close> puts a backslash before every character of the class
  \<open>. + ^ $ { } ( ) | [ ] \\<close>; the other three replace every occurrence of a fixed text, from
  left to right and without overlap.
\<close>

definition backslash :: char where
  "backslash = CHR 0x5C"

definition escapedChar :: "char \<Rightarrow> bool" where
  "escapedChar ch \<longleftrightarrow> ch \<in> set ''.+^${}()|[]'' \<or> ch = backslash"

definition escapeSpecial :: "string \<Rightarrow> string" where
  "escapeSpecial glob = concat (map (\<lambda>ch. if escapedChar ch then [backslash, ch] else [ch]) glob)"

function replaceAll :: "string \<Rightarrow> string \<Rightarrow> string \<Rightarrow> string" where
  "replaceAll pat rep [] = []"
| "replaceAll pat rep (x # xs) =
     (if pat \<noteq> [] \<and> startsWith (x # xs) pat
      then rep @ replaceAll pat rep (drop (length pat) (x # xs))
      else x # replaceAll pat rep xs)"
  by pat_completeness auto
termination
  by (relation "measure (\<lambda>(pat, rep, s). length s)") auto

definition globToRegexSource :: "string \<Rightarrow> string" where
  "globToRegexSource glob =
     ''^'' @
     replaceAll ''::DOUBLE_STAR::'' ''.*''
       (replaceAll ''*'' ''[^/]*''
          (replaceAll ''**'' ''::DOUBLE_STAR::'' (escapeSpecial glob))) @
     ''$''"

text \<open>
  \<open>new RegExp(source)\<close> and \<open>RegExp.prototype.test\<close> belong to the platform. They are
  modelled for the sources that \<open>globToRegex\<close> can produce: \<open>^\<close>, then terms, then \<open>$\<close>, where
  a term is an atom (a backslash and a syntax character, the class \<open>[^/]\<close>, the dot, or a
  character that is not a syntax character) with an optional quantifier \<open>*\<close> or \<open>?\<close>, itself
  optionally followed by the laziness mark \<open>?\<close>. A quantifier with nothing to repeat is a
  \<open>SyntaxError\<close>; it and every source outside this fragment give \<open>None\<close>. The dot matches
  every code unit but a line terminator.
\<close>

datatype RxAtom = RxChar char | RxNotSlash | RxDot

datatype RxQuant = Once | Optional | Many

definition syntaxChar :: "char \<Rightarrow> bool" where
  "syntaxChar ch \<longleftrightarrow> ch \<in> set ''^$.*+?()[]{}|'' \<or> ch = backslash"

definition parseAtom :: "string \<Rightarrow> (RxAtom \<times> string) option" where
  "parseAtom s =
     (case s of
        [] \<Rightarrow> None
      | ch # rest \<Rightarrow>
          if ch = backslash
          then (case rest of
                  [] \<Rightarrow> None
                | e # rest' \<Rightarrow> if syntaxChar e then Some (RxChar e, rest') else None)
          else if startsWith s ''[^/]'' then Some (RxNotSlash, drop 4 s)
          else if ch = CHR ''.'' then Some (RxDot, rest)
          else if syntaxChar ch then None
          else Some (RxChar ch, rest))"

definition parseQuant :: "string \<Rightarrow> RxQuant \<times> string" where
  "parseQuant s =
     (if startsWith s ''*?'' then (Many, drop 2 s)
      else if startsWith s ''*'' then (Many, drop 1 s)
      else if startsWith s ''??'' then (Optional, drop 2 s)
      else if startsWith s ''?'' then (Optional, drop 1 s)
      else (Once, s))"

lemma parseAtom_shorter: "parseAtom s = Some (a, r) \<Longrightarrow> length r < length s"
  by (auto simp: parseAtom_def split: list.splits if_splits)

lemma parseQuant_shorter: "parseQuant s = (q, r) \<Longrightarrow> length r \<le> length s"
  by (auto simp: parseQuant_def split: if_splits)

function parseTerms :: "string \<Rightarrow> (RxAtom \<times> RxQuant) list option" where
  "parseTerms s =
     (if s = [] then Some []
      else (case parseAtom s of
              None \<Rightarrow> None
            | Some (a, r) \<Rightarrow>
                (case parseQuant r of
                   (q, r') \<Rightarrow> map_option ((#) (a, q)) (parseTerms r'))))"
  by pat_completeness auto
termination
proof (relation "measure length")
  show "wf (measure length)" by simp
next
  fix s :: string and x2 :: "RxAtom \<times> string" and x y xa ya
  assume "s \<noteq> []" "parseAtom s = Some x2" "(x, y) = x2" "(xa, ya) = parseQuant y"
  then have "length y < length s" "length ya \<le> length y"
    using parseAtom_shorter [of s x y] parseQuant_shorter [of y xa ya] by auto
  then show "(ya, s) \<in> measure length" by simp
qed

declare parseTerms.simps [simp del]

definition newRegExp :: "string \<Rightarrow> (RxAtom \<times> RxQuant) list option" where
  "newRegExp src =
     (if 2 \<le> length src \<and> hd src = CHR ''^'' \<and> last src = CHR ''$''
      then parseTerms (butlast (tl src))
      else None)"

definition atomMatches :: "RxAtom \<Rightarrow> char \<Rightarrow> bool" where
  "atomMatches a ch =
     (case a of
        RxChar e \<Rightarrow> ch = e
      | RxNotSlash \<Rightarrow> ch \<noteq> CHR ''/''
      | RxDot \<Rightarrow> ch \<noteq> CHR 0x0A \<and> ch \<noteq> CHR 0x0D)"

fun termsMatch :: "(RxAtom \<times> RxQuant) list \<Rightarrow> string \<Rightarrow> bool" where
  "termsMatch [] s = (s = [])"
| "termsMatch ((a, Once) # ts) [] = False"
| "termsMatch ((a, Once) # ts) (ch # s) = (atomMatches a ch \<and> termsMatch ts s)"
| "termsMatch ((a, Optional) # ts) [] = termsMatch ts []"
| "termsMatch ((a, Optional) # ts) (ch # s) =
     (termsMatch ts (ch # s) \<or> (atomMatches a ch \<and> termsMatch ts s))"
| "termsMatch ((a, Many) # ts) [] = termsMatch ts []"
| "termsMatch ((a, Many) # ts) (ch # s) =
     (termsMatch ts (ch # s) \<or> (atomMatches a ch \<and> termsMatch ((a, Many) # ts) s))"

definition globToRegex :: "string \<Rightarrow> (RxAtom \<times> RxQuant) list option" where
  "globToRegex glob = newRegExp (globToRegexSource glob)"

text \<open>
  \<^verbatim>\<open>
  function filterChangesByPatterns(changes, patterns) {
    const regexes = patterns.map((p) => globToRegex(p));
    return changes.filter((c) => regexes.some((r) => r.test(c.destination)));
  }
  \<close>
  The result is \<open>None\<close> when a pattern makes \<open>new RegExp\<close> throw.
\<close>

definition filterChangesByPatterns ::
  "SandboxChangeEntry list \<Rightarrow> string list \<Rightarrow> SandboxChangeEntry list option" where
  "filterChangesByPatterns changes patterns =
     (case those (map globToRegex patterns) of
        None \<Rightarrow> None
      | Some regexes \<Rightarrow>
          Some (filter (\<lambda>c. \<exists>r \<in> set regexes. termsMatch r (destination c)) changes))"

chapter \<open>Facts about the model\<close>

section \<open>Facts about maps\<close>

lemma has_iff: "has m k \<longleftrightarrow> k \<in> fst ` set m"
  by (simp add: has_def map_of_eq_None_iff)

lemma map_entry_append_new:
  "k \<notin> fst ` set m \<Longrightarrow> AList.map_entry k f (m @ [(k, v)]) = m @ [(k, f v)]"
  by (induction m) auto

lemma update_append_new: "k \<notin> fst ` set m \<Longrightarrow> AList.update k v m = m @ [(k, v)]"
  by (induction m) auto

lemma map_entry_as_map:
  "distinct (map fst m) \<Longrightarrow>
   AList.map_entry k f m = map (\<lambda>(k', v). (k', if k' = k then f v else v)) m"
proof (induction m)
  case Nil
  then show ?case by simp
next
  case (Cons p m)
  obtain k' v where p: "p = (k', v)" by (cases p)
  show ?case
  proof (cases "k' = k")
    case True
    with Cons.prems p have "k \<notin> fst ` set m" by auto
    then have "map (\<lambda>(k', v). (k', if k' = k then f v else v)) m = m"
      by (induction m) auto
    with True p show ?thesis by simp
  next
    case False
    with Cons p show ?thesis by simp
  qed
qed

section \<open>Facts about first-seen order\<close>

lemma set_firstSeen: "set (firstSeen xs) = set xs"
  by (induction xs) auto

lemma distinct_firstSeen: "distinct (firstSeen xs)"
  by (induction xs) (auto simp: set_firstSeen)

lemma firstSeen_snoc:
  "firstSeen (xs @ [x]) = (if x \<in> set xs then firstSeen xs else firstSeen xs @ [x])"
  by (induction xs) (auto simp: set_firstSeen)

section \<open>Facts about grouping\<close>

lemma groupByOperation_snoc:
  "groupByOperation (cs @ [c]) = group_step (groupByOperation cs) c"
  by (simp add: groupByOperation_def)

lemma groupByOperation_closed_form:
  "groupByOperation cs =
     map (\<lambda>k. (k, filter (\<lambda>c. operation c = k) cs)) (firstSeen (map operation cs))"
proof (induction cs rule: rev_induct)
  case Nil
  then show ?case by (simp add: groupByOperation_def)
next
  case (snoc c cs)
  let ?ks = "firstSeen (map operation cs)"
  let ?g = "groupByOperation cs"
  have keys: "map fst ?g = ?ks"
    by (simp add: snoc.IH comp_def)
  have dist: "distinct (map fst ?g)"
    by (simp add: keys distinct_firstSeen)
  have dom: "fst ` set ?g = operation ` set cs"
    using keys set_firstSeen [of "map operation cs"] by (metis list.set_map)
  show ?case
  proof (cases "operation c \<in> operation ` set cs")
    case True
    then have "group_step ?g c = AList.map_entry (operation c) (\<lambda>l. l @ [c]) ?g"
      by (simp add: group_step_def Let_def has_iff dom)
    also have "\<dots> = map (\<lambda>(k', v). (k', if k' = operation c then v @ [c] else v)) ?g"
      by (rule map_entry_as_map [OF dist])
    also have "\<dots> = map (\<lambda>k. (k, filter (\<lambda>c. operation c = k) (cs @ [c]))) ?ks"
      by (subst snoc.IH) auto
    finally show ?thesis
      using True by (simp add: groupByOperation_snoc firstSeen_snoc)
  next
    case False
    then have notin: "operation c \<notin> fst ` set ?g"
      by (simp add: dom)
    have "group_step ?g c = ?g @ [(operation c, [c])]"
      using notin
      by (simp add: group_step_def Let_def has_iff set_key_def update_append_new
          map_entry_append_new)
    also have "\<dots> = map (\<lambda>k. (k, filter (\<lambda>c. operation c = k) (cs @ [c])))
                       (firstSeen (map operation (cs @ [c])))"
    proof -
      have "\<And>k. k \<in> set ?ks \<Longrightarrow> k \<noteq> operation c"
        using False by (metis set_firstSeen list.set_map)
      then have "map (\<lambda>k. (k, filter (\<lambda>c. operation c = k) (cs @ [c]))) ?ks =
                 map (\<lambda>k. (k, filter (\<lambda>c. operation c = k) cs)) ?ks"
        by (intro map_cong) auto
      moreover have "filter (\<lambda>d. operation d = operation c) cs = []"
        unfolding filter_empty_conv using False by (metis image_eqI)
      ultimately show ?thesis
        using False by (simp add: firstSeen_snoc snoc.IH)
    qed
    finally show ?thesis
      by (simp add: groupByOperation_snoc)
  qed
qed

lemma mset_concat_groups:
  "distinct ks \<Longrightarrow> f ` set cs \<subseteq> set ks \<Longrightarrow>
   mset (concat (map (\<lambda>k. filter (\<lambda>c. f c = k) cs) ks)) = mset cs"
proof (induction ks arbitrary: cs)
  case Nil
  then show ?case by simp
next
  case (Cons k ks)
  let ?rest = "filter (\<lambda>c. f c \<noteq> k) cs"
  have same: "map (\<lambda>k'. filter (\<lambda>c. f c = k') cs) ks =
              map (\<lambda>k'. filter (\<lambda>c. f c = k') ?rest) ks"
  proof (rule map_cong [OF refl])
    fix k' assume "k' \<in> set ks"
    with Cons.prems(1) have "k' \<noteq> k" by auto
    then show "filter (\<lambda>c. f c = k') cs = filter (\<lambda>c. f c = k') ?rest"
      by (induction cs) auto
  qed
  have "f ` set ?rest \<subseteq> set ks"
    using Cons.prems(2) by auto
  moreover have "distinct ks"
    using Cons.prems(1) by simp
  ultimately have ih: "mset (concat (map (\<lambda>k'. filter (\<lambda>c. f c = k') ?rest) ks)) = mset ?rest"
    by (rule Cons.IH [rotated])
  have "mset (concat (map (\<lambda>k'. filter (\<lambda>c. f c = k') cs) (k # ks))) =
        mset (filter (\<lambda>c. f c = k) cs) + mset (concat (map (\<lambda>k'. filter (\<lambda>c. f c = k') cs) ks))"
    by simp
  also have "\<dots> = mset (filter (\<lambda>c. f c = k) cs) + mset ?rest"
    by (simp only: same ih)
  also have "\<dots> = mset cs"
    by (induction cs) auto
  finally show ?case .
qed

section \<open>Facts about splitting\<close>

lemma split_not_Nil: "split sep s \<noteq> []"
  by (induction s) (auto split: list.splits)

lemma join_Cons: "ps \<noteq> [] \<Longrightarrow> join sep (p # ps) = p @ sep # join sep ps"
  by (cases ps) auto

lemma join_split: "join sep (split sep s) = s"
proof (induction s)
  case Nil
  then show ?case by simp
next
  case (Cons x s)
  show ?case
  proof (cases "x = sep")
    case True
    with Cons show ?thesis by (simp add: join_Cons split_not_Nil)
  next
    case False
    obtain w ws where sp: "split sep s = w # ws"
      using split_not_Nil [of sep s] by (cases "split sep s") auto
    with Cons have "join sep (w # ws) = s" by simp
    then have "join sep ((x # w) # ws) = x # s"
      by (cases ws) auto
    with False sp show ?thesis by simp
  qed
qed

lemma pathParts_nonempty: "p \<in> set (pathParts cwd d) \<Longrightarrow> p \<noteq> []"
  by (auto simp: pathParts_def)

lemma join_pathParts:
  "[] \<notin> set (split CHR ''/'' (relativePath cwd d)) \<Longrightarrow>
   join CHR ''/'' (pathParts cwd d) = relativePath cwd d"
proof -
  assume "[] \<notin> set (split CHR ''/'' (relativePath cwd d))"
  then have "filter (\<lambda>p. length p > 0) (split CHR ''/'' (relativePath cwd d)) =
             split CHR ''/'' (relativePath cwd d)"
    by (intro filter_True) auto
  then show ?thesis
    by (simp add: pathParts_def join_split)
qed

section \<open>Facts about insertion\<close>

lemma get_ensureKey:
  "get (ensureKey part cursor) part = (case get cursor part of None \<Rightarrow> Some (Dir []) | Some v \<Rightarrow> Some v)"
  by (auto simp: ensureKey_def get_def has_def set_key_def update_conv')

lemma nextMap_ensureKey: "nextMap part (ensureKey part cursor) = nextMap part cursor"
  by (simp add: nextMap_def get_ensureKey split: option.splits)

lemma set_key_ensureKey: "set_key part v (ensureKey part cursor) = set_key part v cursor"
  by (simp add: ensureKey_def set_key_def)

lemma insertParts_last: "insertParts [part] c cursor = set_key part (Leaf c) cursor"
  by (simp add: set_key_ensureKey)

lemma insertParts_step:
  "rest \<noteq> [] \<Longrightarrow>
   insertParts (part # rest) c cursor =
     set_key part (Dir (insertParts rest c (nextMap part cursor))) cursor"
  by (cases rest) (simp_all add: set_key_ensureKey nextMap_ensureKey)

declare insertParts.simps(2,3) [simp del]

lemma leaves_append: "leaves (a @ b) = leaves a @ leaves b"
  by (induction a rule: leaves.induct) auto

lemma names_append: "names (a @ b) = names a @ names b"
  by (induction a rule: names.induct) auto

lemma leaves_set_key:
  "set (leaves (set_key k v m)) \<subseteq> set (leaves m) \<union> set (leaves [(k, v)])"
  unfolding set_key_def
proof (induction m rule: leaves.induct)
  case 1
  then show ?case by simp
next
  case (2 k' c r)
  then show ?case by (cases v) auto
next
  case (3 k' m' r)
  then show ?case by (cases v) auto
qed

lemma names_set_key:
  "set (names (set_key k v m)) \<subseteq> set (names m) \<union> set (names [(k, v)])"
  unfolding set_key_def
proof (induction m rule: names.induct)
  case 1
  then show ?case by simp
next
  case (2 k' c r)
  then show ?case by (cases v) auto
next
  case (3 k' m' r)
  then show ?case by (cases v) auto
qed

lemma leaves_nextMap:
  "(p, c) \<in> set (leaves (nextMap k m)) \<Longrightarrow> (k # p, c) \<in> set (leaves m)"
proof (induction m rule: leaves.induct)
  case 1
  then show ?case by (simp add: nextMap_def get_def)
next
  case (2 k' c' r)
  then show ?case by (auto simp: nextMap_def get_def split: if_splits)
next
  case (3 k' m' r)
  then show ?case by (auto simp: nextMap_def get_def split: if_splits)
qed

lemma names_nextMap: "set (names (nextMap k m)) \<subseteq> set (names m)"
proof (induction m rule: names.induct)
  case 1
  then show ?case by (simp add: nextMap_def get_def)
next
  case (2 k' c' r)
  then show ?case by (auto simp: nextMap_def get_def split: if_splits)
next
  case (3 k' m' r)
  then show ?case by (auto simp: nextMap_def get_def split: if_splits)
qed

lemma leaves_insertParts:
  "set (leaves (insertParts ps c m)) \<subseteq> set (leaves m) \<union> {(ps, c)}"
proof (induction ps arbitrary: m)
  case Nil
  then show ?case by auto
next
  case (Cons part rest)
  show ?case
  proof (cases "rest = []")
    case True
    then show ?thesis
      using leaves_set_key [of part "Leaf c" m] by (auto simp: insertParts_last)
  next
    case False
    let ?sub = "insertParts rest c (nextMap part m)"
    have "set (leaves (insertParts (part # rest) c m)) \<subseteq>
          set (leaves m) \<union> set (leaves [(part, Dir ?sub)])"
      using leaves_set_key [of part "Dir ?sub" m] False by (simp add: insertParts_step)
    moreover have "set (leaves [(part, Dir ?sub)]) \<subseteq> set (leaves m) \<union> {(part # rest, c)}"
    proof
      fix x assume "x \<in> set (leaves [(part, Dir ?sub)])"
      then obtain p d where x: "x = (part # p, d)" and pd: "(p, d) \<in> set (leaves ?sub)"
        by auto
      from pd Cons.IH [of "nextMap part m"]
      have "(p, d) \<in> set (leaves (nextMap part m)) \<or> (p, d) = (rest, c)" by auto
      then show "x \<in> set (leaves m) \<union> {(part # rest, c)}"
        using x leaves_nextMap [of p d part m] by auto
    qed
    ultimately show ?thesis by blast
  qed
qed

lemma names_insertParts: "set (names (insertParts ps c m)) \<subseteq> set (names m) \<union> set ps"
proof (induction ps arbitrary: m)
  case Nil
  then show ?case by simp
next
  case (Cons part rest)
  show ?case
  proof (cases "rest = []")
    case True
    then show ?thesis
      using names_set_key [of part "Leaf c" m] by (auto simp: insertParts_last)
  next
    case False
    let ?sub = "insertParts rest c (nextMap part m)"
    have "set (names (insertParts (part # rest) c m)) \<subseteq>
          set (names m) \<union> set (names [(part, Dir ?sub)])"
      using names_set_key [of part "Dir ?sub" m] False by (simp add: insertParts_step)
    moreover have "set (names [(part, Dir ?sub)]) \<subseteq> set (names m) \<union> set (part # rest)"
      using Cons.IH [of "nextMap part m"] names_nextMap [of part m] by auto
    ultimately show ?thesis by blast
  qed
qed

lemma buildRoot_snoc:
  "buildRoot (cs @ [c]) cwd = insertParts (pathParts cwd (destination c)) c (buildRoot cs cwd)"
  by (simp add: buildRoot_def)

lemma leaves_buildRoot:
  "(p, c) \<in> set (leaves (buildRoot cs cwd)) \<Longrightarrow>
   c \<in> set cs \<and> p = pathParts cwd (destination c)"
proof (induction cs arbitrary: p c rule: rev_induct)
  case Nil
  then show ?case by (simp add: buildRoot_def)
next
  case (snoc c' cs)
  from snoc.prems leaves_insertParts [of "pathParts cwd (destination c')" c' "buildRoot cs cwd"]
  have "(p, c) \<in> set (leaves (buildRoot cs cwd)) \<or> (p, c) = (pathParts cwd (destination c'), c')"
    by (auto simp: buildRoot_snoc)
  then show ?case
    using snoc.IH by auto
qed

lemma names_buildRoot:
  "n \<in> set (names (buildRoot cs cwd)) \<Longrightarrow>
   \<exists>c \<in> set cs. n \<in> set (pathParts cwd (destination c))"
proof (induction cs arbitrary: n rule: rev_induct)
  case Nil
  then show ?case by (simp add: buildRoot_def)
next
  case (snoc c' cs)
  from snoc.prems names_insertParts [of "pathParts cwd (destination c')" c' "buildRoot cs cwd"]
  have "n \<in> set (names (buildRoot cs cwd)) \<or> n \<in> set (pathParts cwd (destination c'))"
    by (auto simp: buildRoot_snoc)
  then show ?case
    using snoc.IH by auto
qed

lemma get_set_key: "get (set_key k v m) k' = (if k' = k then Some v else get m k')"
  by (simp add: get_def set_key_def update_conv')

lemma keys_set_key: "fst ` set (set_key k v m) = insert k (fst ` set m)"
  by (simp add: set_key_def dom_update)

lemma distinctKeys_set_key:
  "distinctKeys m \<Longrightarrow> distinctKeys [(k, v)] \<Longrightarrow> distinctKeys (set_key k v m)"
proof (induction m rule: distinctKeys.induct)
  case 1
  then show ?case by (simp add: set_key_def)
next
  case (2 k' c r)
  then show ?case
    using keys_set_key [of k v r] by (cases v) (auto simp: set_key_def)
next
  case (3 k' m' r)
  then show ?case
    using keys_set_key [of k v r] by (cases v) (auto simp: set_key_def)
qed

lemma distinctKeys_nextMap: "distinctKeys m \<Longrightarrow> distinctKeys (nextMap k m)"
proof (induction m rule: distinctKeys.induct)
  case 1
  then show ?case by (simp add: nextMap_def get_def)
next
  case (2 k' c r)
  then show ?case by (auto simp: nextMap_def get_def)
next
  case (3 k' m' r)
  then show ?case by (auto simp: nextMap_def get_def)
qed

lemma distinctKeys_insertParts: "distinctKeys m \<Longrightarrow> distinctKeys (insertParts ps c m)"
proof (induction ps arbitrary: m)
  case Nil
  then show ?case by simp
next
  case (Cons part rest)
  show ?case
  proof (cases "rest = []")
    case True
    with Cons.prems show ?thesis
      by (simp add: insertParts_last distinctKeys_set_key)
  next
    case False
    have "distinctKeys (insertParts rest c (nextMap part m))"
      by (rule Cons.IH [OF distinctKeys_nextMap [OF Cons.prems]])
    with Cons.prems False show ?thesis
      by (simp add: insertParts_step distinctKeys_set_key)
  qed
qed

lemma distinctKeys_buildRoot: "distinctKeys (buildRoot cs cwd)"
  by (induction cs rule: rev_induct) (simp_all add: buildRoot_def distinctKeys_insertParts)

lemma leaves_head: "(p, c) \<in> set (leaves m) \<Longrightarrow> p \<noteq> [] \<and> hd p \<in> fst ` set m"
  by (induction m rule: leaves.induct) auto

lemma distinct_leaves: "distinctKeys m \<Longrightarrow> distinct (map fst (leaves m))"
proof (induction m rule: leaves.induct)
  case 1
  then show ?case by simp
next
  case (2 k c r)
  then show ?case
    using leaves_head [of _ _ r] by force
next
  case (3 k m r)
  have inj: "distinct (map fst (map (\<lambda>(p, c). (k # p, c)) (leaves m)))"
  proof -
    have eq: "map fst (map (\<lambda>(p, c). (k # p, c)) (leaves m)) = map ((#) k) (map fst (leaves m))"
      by (simp add: case_prod_unfold comp_def)
    have d: "distinct (map fst (leaves m))"
      using 3 by simp
    have i: "inj_on ((#) k) (set (map fst (leaves m)))"
      by (rule inj_onI) simp
    from d i have "distinct (map ((#) k) (map fst (leaves m)))"
      using distinct_map by blast
    then show ?thesis
      by (simp only: eq)
  qed
  have disj: "set (map fst (map (\<lambda>(p, c). (k # p, c)) (leaves m))) \<inter>
              set (map fst (leaves r)) = {}"
  proof -
    have "\<And>p c. (p, c) \<in> set (leaves r) \<Longrightarrow> hd p \<noteq> k"
      using 3(3) leaves_head [of _ _ r] by auto
    then show ?thesis by force
  qed
  have dr: "distinct (map fst (leaves r))"
    using 3 by simp
  from inj dr disj
  have "distinct (map fst (map (\<lambda>(p, c). (k # p, c)) (leaves m)) @ map fst (leaves r))"
    unfolding distinct_append by blast
  then show ?case
    by simp
qed

lemma lookupPath_Cons:
  "ps \<noteq> [] \<Longrightarrow>
   lookupPath m (p # ps) = (case get m p of Some (Dir sub) \<Rightarrow> lookupPath sub ps | _ \<Rightarrow> None)"
  by (cases ps) (auto split: option.splits DirNode.splits)

lemma lookupPath_insertParts:
  "ps \<noteq> [] \<Longrightarrow> lookupPath (insertParts ps c m) ps = Some (Leaf c)"
proof (induction ps arbitrary: m)
  case Nil
  then show ?case by simp
next
  case (Cons part rest)
  show ?case
  proof (cases "rest = []")
    case True
    then show ?thesis by (simp add: insertParts_last get_set_key)
  next
    case False
    with Cons.IH show ?thesis
      by (simp add: insertParts_step lookupPath_Cons get_set_key)
  qed
qed

lemma lookupPath_through_leaf:
  "qs \<noteq> [] \<Longrightarrow> rs \<noteq> [] \<Longrightarrow> lookupPath m qs = Some (Leaf d) \<Longrightarrow>
   lookupPath (insertParts (qs @ rs) c m) qs = Some (Dir (insertParts rs c []))"
proof (induction qs arbitrary: m)
  case Nil
  then show ?case by simp
next
  case (Cons q qs)
  show ?case
  proof (cases "qs = []")
    case True
    with Cons.prems have "get m q = Some (Leaf d)" by simp
    then have "nextMap q m = []" by (simp add: nextMap_def)
    with True Cons.prems(2) show ?thesis
      by (simp add: insertParts_step get_set_key)
  next
    case False
    with Cons.prems(3) obtain sub where sub: "get m q = Some (Dir sub)"
      and look: "lookupPath sub qs = Some (Leaf d)"
      by (auto simp: lookupPath_Cons split: option.splits DirNode.splits)
    from sub have nm: "nextMap q m = sub" by (simp add: nextMap_def)
    have "lookupPath (insertParts (qs @ rs) c sub) qs = Some (Dir (insertParts rs c []))"
      by (rule Cons.IH [OF False Cons.prems(2) look])
    with False nm show ?thesis
      by (simp add: insertParts_step lookupPath_Cons get_set_key)
  qed
qed

lemma leaves_insertParts_empty: "rs \<noteq> [] \<Longrightarrow> leaves (insertParts rs c []) = [(rs, c)]"
proof (induction rs)
  case Nil
  then show ?case by simp
next
  case (Cons r rs)
  show ?case
  proof (cases "rs = []")
    case True
    then show ?thesis by (simp add: insertParts_last set_key_def)
  next
    case False
    with Cons.IH show ?thesis
      by (simp add: insertParts_step set_key_def nextMap_def get_def)
  qed
qed

section \<open>Facts about the gateway\<close>

lemma execFile_withCloseCode:
  "stdout (execFile (withCloseCode k env) bin args cwd) = stdout (execFile env bin args cwd) \<and>
   stderr (execFile (withCloseCode k env) bin args cwd) = stderr (execFile env bin args cwd)"
  by (simp add: execFile_def withCloseCode_def Let_def)

lemma getProp_None: "getProp v k = None \<longleftrightarrow> v = JNull"
  by (cases v) (simp_all add: getProp_def)

lemma getProp_JNull: "getProp JNull k = None"
  by (simp add: getProp_def)

lemma fetchStatus_isl:
  "isl (fetchStatus env cwd) \<longleftrightarrow>
     jsonParse env (stdout (statusRun env cwd)) = None \<or>
     jsonParse env (stdout (statusRun env cwd)) = Some JNull"
  unfolding fetchStatus_def statusRun_def Let_def
  by (auto simp: getProp_None getProp_JNull split: option.splits json.splits)

lemma fetchConfig_isl:
  "isl (fetchConfig env cwd) \<longleftrightarrow>
     jsonParse env (stdout (configRun env cwd)) = None \<or>
     jsonParse env (stdout (configRun env cwd)) = Some JNull"
  unfolding fetchConfig_def configRun_def Let_def
  by (auto simp: getProp_None getProp_JNull split: option.splits)

lemma fetchStatus_message:
  "isl (fetchStatus env cwd) \<Longrightarrow> fetchStatus env cwd = Inl (statusParseError (statusRun env cwd))"
  unfolding fetchStatus_def statusRun_def Let_def
  by (auto split: option.splits json.splits)

lemma fetchConfig_message:
  "isl (fetchConfig env cwd) \<Longrightarrow> fetchConfig env cwd = Inl (configParseError (configRun env cwd))"
  unfolding fetchConfig_def configRun_def Let_def
  by (auto split: option.splits)

lemma parseError_message:
  "statusParseError res = Error (''Failed to parse sandbox status JSON: '' @
      (if stderr res \<noteq> [] then stderr res else stdout res))"
  "configParseError res = Error (''Failed to parse sandbox config JSON: '' @
      (if stderr res \<noteq> [] then stderr res else stdout res))"
  by (simp_all add: statusParseError_def configParseError_def orElse_def)

lemma fetch_withCloseCode:
  "fetchStatus (withCloseCode k env) cwd = fetchStatus env cwd \<and>
   fetchConfig (withCloseCode k env) cwd = fetchConfig env cwd"
proof -
  have e: "jsonParse (withCloseCode k env) = jsonParse env"
    "binaryPath (withCloseCode k env) = binaryPath env"
    "baseArgs (withCloseCode k env) = baseArgs env"
    by (simp_all add: withCloseCode_def)
  have x: "\<And>bin args. statusParseError (execFile (withCloseCode k env) bin args cwd) =
             statusParseError (execFile env bin args cwd)"
    "\<And>bin args. configParseError (execFile (withCloseCode k env) bin args cwd) =
             configParseError (execFile env bin args cwd)"
    by (simp_all only: statusParseError_def configParseError_def execFile_withCloseCode)
  show ?thesis
    unfolding fetchStatus_def fetchConfig_def Let_def
    by (simp only: e x execFile_withCloseCode simp_thms)
qed

lemma fetchStatus_no_changes:
  "jsonParse env (stdout (statusRun env cwd)) = Some v \<Longrightarrow> v \<noteq> JNull \<Longrightarrow>
   getProp v ''changes'' = Some None \<or> getProp v ''changes'' = Some (Some JNull) \<Longrightarrow>
   fetchStatus env cwd = Inr (JArray [])"
  unfolding fetchStatus_def statusRun_def Let_def
  by auto

section \<open>Facts about sorting\<close>

lemma mset_insort_by: "mset (insort_by cmp x xs) = add_mset x (mset xs)"
  by (induction xs) auto

lemma mset_sort_by: "mset (sort_by cmp xs) = mset xs"
  by (induction xs) (auto simp: sort_by_def mset_insort_by)

lemma sorted_insort_by:
  assumes total: "\<And>a b. cmp a b \<le> 0 \<or> cmp b a \<le> 0"
    and trans: "\<And>a b c. cmp a b \<le> 0 \<Longrightarrow> cmp b c \<le> 0 \<Longrightarrow> cmp a c \<le> 0"
  shows "sorted_wrt (\<lambda>a b. cmp a b \<le> 0) xs \<Longrightarrow> sorted_wrt (\<lambda>a b. cmp a b \<le> 0) (insort_by cmp x xs)"
proof (induction xs)
  case Nil
  then show ?case by simp
next
  case (Cons y ys)
  show ?case
  proof (cases "cmp x y \<le> 0")
    case True
    with Cons.prems trans show ?thesis by auto
  next
    case False
    with total have "cmp y x \<le> 0" by blast
    with Cons False show ?thesis
      by (auto simp: set_insort_by)
  qed
qed

lemma sorted_sort_by:
  assumes total: "\<And>a b. cmp a b \<le> 0 \<or> cmp b a \<le> 0"
    and trans: "\<And>a b c. cmp a b \<le> 0 \<Longrightarrow> cmp b c \<le> 0 \<Longrightarrow> cmp a c \<le> 0"
  shows "sorted_wrt (\<lambda>a b. cmp a b \<le> 0) (sort_by cmp xs)"
proof (induction xs)
  case Nil
  then show ?case by (simp add: sort_by_def)
next
  case (Cons x xs)
  then show ?case
    using sorted_insort_by [OF total trans] by (simp add: sort_by_def)
qed

lemma sorted_sortEntries:
  assumes total: "\<And>a b. lc a b \<le> 0 \<or> lc b a \<le> 0"
    and trans: "\<And>a b c. lc a b \<le> 0 \<Longrightarrow> lc b c \<le> 0 \<Longrightarrow> lc a c \<le> (0::int)"
  shows "sorted_wrt (\<lambda>a b. lc (fst a) (fst b) \<le> 0) (sortEntries lc tree)"
  unfolding sortEntries_def
  by (rule sorted_sort_by) (use total trans in blast)+

section \<open>Facts about the group nodes\<close>

lemma map_of_graph:
  "map_of (map (\<lambda>k. (k, g k)) ks) k = (if k \<in> set ks then Some (g k) else None)"
  by (induction ks) auto

lemma get_groupByOperation:
  "get (groupByOperation cs) k =
     (if k \<in> set (map operation cs) then Some (filter (\<lambda>c. operation c = k) cs) else None)"
  by (simp add: get_def groupByOperation_closed_form map_of_graph set_firstSeen)

lemma group_nonempty: "k \<in> set (map operation cs) \<Longrightarrow> filter (\<lambda>c. operation c = k) cs \<noteq> []"
  by (auto simp: filter_empty_conv)

lemma priority_groups:
  "concat (map (\<lambda>opn. case get (groupByOperation cs) opn of
                          None \<Rightarrow> []
                        | Some list \<Rightarrow> if length list = 0 then [] else [f opn list]) ks) =
   map (\<lambda>k. f k (filter (\<lambda>c. operation c = k) cs)) (filter (\<lambda>k. k \<in> set (map operation cs)) ks)"
proof (induction ks)
  case Nil
  then show ?case by simp
next
  case (Cons k ks)
  then show ?case
    using group_nonempty [of k cs] by (simp add: get_groupByOperation)
qed

lemma other_groups:
  "map (\<lambda>(opn, list). f opn list) (filter (\<lambda>(opn, list). opn \<notin> S) (groupByOperation cs)) =
   map (\<lambda>k. f k (filter (\<lambda>c. operation c = k) cs))
     (filter (\<lambda>k. k \<notin> S) (firstSeen (map operation cs)))"
  by (simp add: groupByOperation_closed_form filter_map comp_def)

lemma groupNodes_closed_form:
  "groupNodes lc (groupByOperation cs) cwd =
     map (\<lambda>k. groupNode lc k (filter (\<lambda>c. operation c = k) cs) cwd) (expectedGroupOrder cs)"
  unfolding groupNodes_def expectedGroupOrder_def map_append
  by (simp only: priority_groups other_groups order_def)

lemma statusNodes_changes:
  "statusNodes lc inOverlay hasOrig cwd (Inr cs) =
     (if inOverlay then [buildOverlayIndicatorNode] else []) @
     [buildActionsGroupNode cwd inOverlay hasOrig] @
     map (\<lambda>k. groupNode lc k (filter (\<lambda>c. operation c = k) cs) cwd) (expectedGroupOrder cs)"
  by (simp only: statusNodes_def sum.case groupNodes_closed_form)

lemma groupNode_op: "op (item (groupNode lc k list cwd)) = Some k"
  by (simp add: groupNode_def setChildren_def newSandboxNode_def)

lemma groupNode_children:
  "children (groupNode lc k list cwd) = Some (buildDirectoryHierarchy lc list (Some cwd))"
  by (simp add: groupNode_def setChildren_def)

lemma expectedGroupOrder_present:
  "k \<in> set (expectedGroupOrder cs) \<Longrightarrow> filter (\<lambda>c. operation c = k) cs \<noteq> []"
proof -
  assume "k \<in> set (expectedGroupOrder cs)"
  then have "k \<in> set (map operation cs)"
    by (simp only: expectedGroupOrder_def set_append set_filter set_firstSeen) blast
  then show ?thesis
    by (rule group_nonempty)
qed

section \<open>Facts about the diff resolver\<close>












section \<open>Facts about patterns\<close>

text \<open>The examples of the specification hold on the code.\<close>

lemma glob_examples_hold:
  "filterChangesByPatterns
     [entry ''a/b.ts'' ''modify'', entry ''a/b/c.ts'' ''modify'', entry ''a/x'' ''modify'']
     [''a/*.ts''] = Some [entry ''a/b.ts'' ''modify'']"
  "filterChangesByPatterns
     [entry ''a/b.ts'' ''modify'', entry ''a/b/c.ts'' ''modify'', entry ''a/x'' ''modify'',
      entry ''b/x'' ''modify'']
     [''a/**''] = Some [entry ''a/b.ts'' ''modify'', entry ''a/b/c.ts'' ''modify'',
                        entry ''a/x'' ''modify'']"
  "filterChangesByPatterns
     [entry ''lit.txt'' ''modify'', entry ''litxtxt'' ''modify'', entry ''a/lit.txt'' ''modify'']
     [''lit.txt''] = Some [entry ''lit.txt'' ''modify'']"
  "filterChangesByPatterns
     [entry ''a/b.ts'' ''modify'', entry ''lit.txt'' ''modify'', entry ''z'' ''modify'']
     [''lit.txt'', ''a/*.ts''] = Some [entry ''a/b.ts'' ''modify'', entry ''lit.txt'' ''modify'']"
  by code_simp+

section \<open>Facts about the rendered forest\<close>

lemma mset_concat_map_cong:
  "mset xs = mset ys \<Longrightarrow> mset (concat (map f xs)) = mset (concat (map f ys))"
proof -
  assume eq: "mset xs = mset ys"
  have "\<And>zs. mset (concat (map f zs)) = (\<Sum>z\<in>#mset zs. mset (f z))"
    by (induct_tac zs) auto
  with eq show ?thesis by simp
qed

lemma children_nodeFromChange: "children (nodeFromChange c) = None"
  by (simp add: nodeFromChange_def updItem_def newSandboxNode_def Let_def split: option.splits)

lemma nodeLeaves_nodeFromChange: "nodeLeaves (nodeFromChange c) = [([], nodeFromChange c)]"
  using children_nodeFromChange [of c] by (cases "nodeFromChange c") (auto split: option.splits)

lemma nodeLeaves_folderNode:
  "nodeLeaves (folderNode nm path kids) = map (\<lambda>(p, n). (nm # p, n)) (forestLeaves kids)"
  by (simp add: folderNode_def setChildren_def updItem_def newSandboxNode_def forestLeaves_def)

lemma forestLeaves_toNodes:
  "mset (forestLeaves (toNodes lc tree prefix)) =
   mset (map (\<lambda>(p, c). (butlast p, nodeFromChange c)) (leaves tree))"
proof (induction lc tree prefix rule: toNodes.induct)
  case (1 lc tree prefix)
  let ?render = "\<lambda>(nm, v). case v of
        Dir sub \<Rightarrow> folderNode nm (folderPathOf prefix nm) (toNodes lc sub (folderPathOf prefix nm))
      | Leaf c \<Rightarrow> nodeFromChange c"
  let ?g = "\<lambda>(p, c). (butlast p, nodeFromChange c)"
  have entry: "\<And>e. e \<in> set tree \<Longrightarrow> mset (nodeLeaves (?render e)) = mset (map ?g (leaves [e]))"
  proof -
    fix e assume e: "e \<in> set tree"
    obtain nm v where nv: "e = (nm, v)" by (cases e)
    show "mset (nodeLeaves (?render e)) = mset (map ?g (leaves [e]))"
    proof (cases v)
      case (Leaf c)
      with nv show ?thesis by (simp add: nodeLeaves_nodeFromChange)
    next
      case (Dir sub)
      have mem: "(nm, Dir sub) \<in> set (sortEntries lc tree)"
        using e nv Dir by (simp add: set_sortEntries)
      have ih: "mset (forestLeaves (toNodes lc sub (folderPathOf prefix nm))) =
                mset (map ?g (leaves sub))"
        by (rule "1.IH" [OF mem refl refl])
      have ne: "\<And>p c. (p, c) \<in> set (leaves sub) \<Longrightarrow> p \<noteq> []"
        using leaves_head by blast
      have "map ?g (leaves [(nm, Dir sub)]) =
            map (\<lambda>(p, n). (nm # p, n)) (map ?g (leaves sub))"
        using ne by (auto simp: case_prod_unfold)
      then have "mset (map ?g (leaves [(nm, Dir sub)])) =
            image_mset (\<lambda>(p, n). (nm # p, n)) (mset (map ?g (leaves sub)))"
        by (simp only: mset_map)
      also have "\<dots> = image_mset (\<lambda>(p, n). (nm # p, n))
            (mset (forestLeaves (toNodes lc sub (folderPathOf prefix nm))))"
        by (simp only: ih)
      also have "\<dots> = mset (nodeLeaves (folderNode nm (folderPathOf prefix nm)
            (toNodes lc sub (folderPathOf prefix nm))))"
        by (simp only: nodeLeaves_folderNode mset_map)
      finally show ?thesis
        using nv Dir by simp
    qed
  qed
  have all: "\<And>es. set es \<subseteq> set tree \<Longrightarrow>
      mset (concat (map (\<lambda>e. nodeLeaves (?render e)) es)) = mset (map ?g (leaves es))"
  proof -
    fix es show "set es \<subseteq> set tree \<Longrightarrow>
      mset (concat (map (\<lambda>e. nodeLeaves (?render e)) es)) = mset (map ?g (leaves es))"
    proof (induction es)
      case Nil
      then show ?case by simp
    next
      case (Cons e es)
      have "leaves (e # es) = leaves [e] @ leaves es"
        using leaves_append [of "[e]" es] by simp
      with Cons entry [of e] show ?case by simp
    qed
  qed
  have "mset (forestLeaves (toNodes lc tree prefix)) =
        mset (concat (map (\<lambda>e. nodeLeaves (?render e)) (sortEntries lc tree)))"
    by (subst toNodes.simps) (simp add: forestLeaves_def comp_def)
  also have "\<dots> = mset (concat (map (\<lambda>e. nodeLeaves (?render e)) tree))"
    by (rule mset_concat_map_cong) (simp add: sortEntries_def mset_sort_by)
  also have "\<dots> = mset (map ?g (leaves tree))"
    by (rule all) simp
  finally show ?case .
qed

lemma forestLeaves_buildDirectoryHierarchy:
  "(fs, n) \<in> set (forestLeaves (buildDirectoryHierarchy lc cs cwd)) \<Longrightarrow>
   \<exists>c \<in> set cs. n = nodeFromChange c \<and> fs = butlast (pathParts cwd (destination c)) \<and>
     (pathParts cwd (destination c), c) \<in> set (leaves (buildRoot cs cwd))"
proof -
  assume "(fs, n) \<in> set (forestLeaves (buildDirectoryHierarchy lc cs cwd))"
  then have "(fs, n) \<in># mset (forestLeaves (toNodes lc (buildRoot cs cwd) []))"
    by (simp add: buildDirectoryHierarchy_def)
  then have "(fs, n) \<in> set (map (\<lambda>(p, c). (butlast p, nodeFromChange c)) (leaves (buildRoot cs cwd)))"
    by (simp only: forestLeaves_toNodes set_mset_mset)
  then obtain p c where pc: "(p, c) \<in> set (leaves (buildRoot cs cwd))"
    and fs: "fs = butlast p" and n: "n = nodeFromChange c"
    by auto
  from leaves_buildRoot [OF pc] pc fs n show ?thesis by blast
qed

lemma targetPath_nodeFromChange: "targetPath (item (nodeFromChange c)) = Some (destination c)"
  by (simp add: nodeFromChange_def updItem_def newSandboxNode_def Let_def split: option.splits)

section \<open>Scenarios of the specification\<close>

text \<open>
  A status with a modified file and a created file below \<open>cwd\<close> gives two groups of one
  entry; the hierarchy of the created file is the interior node \<open>b\<close> with the leaf \<open>c.txt\<close>.
\<close>

lemma scenario_two_groups:
  "groupByOperation [entry ''/w/a.txt'' ''modify'', entry ''/w/b/c.txt'' ''create''] =
     [(''modify'', [entry ''/w/a.txt'' ''modify'']), (''create'', [entry ''/w/b/c.txt'' ''create''])]"
  "buildRoot [entry ''/w/b/c.txt'' ''create''] (Some ''/w'') =
     [(''b'', Dir [(''c.txt'', Leaf (entry ''/w/b/c.txt'' ''create''))])]"
  by code_simp+

text \<open>Leading and doubled slashes leave no empty name behind.\<close>

lemma scenario_slashes:
  "names (buildRoot [entry ''//w///a.txt'' ''modify''] (Some ''/x'')) = [''w'', ''a.txt'']"
  by code_simp

text \<open>An \<open>accept\<close> that exits with the code 2 throws what the process wrote to \<open>stderr\<close>.\<close>

lemma scenario_accept_fails:
  "runAccept (exampleEnv [] ''Insufficient permissions'' (Some 2)) [''x.txt''] None =
     Inl (Error ''Insufficient permissions'')"
  by (simp add: runAccept_def execFile_def exampleEnv_def orElse_def)

chapter \<open>The claims\<close>

section \<open>C1: leaves of the hierarchy and their paths\<close>

text \<open>
  C1 (as amended). For every change list and \<open>cwd\<close>, every leaf of the hierarchy that
  \<open>buildDirectoryHierarchy\<close> builds holds an entry of the input, and no two leaves have the
  same path. The segments on the path from the root to the leaf are the non-empty segments
  of the entry's destination, split at \<open>/\<close>, after the prefix \<open>cwd/\<close> has been stripped from
  it when \<open>cwd\<close> is non-empty and the destination starts with that prefix. Joined with \<open>/\<close>
  they give back that stripped destination whenever it has no empty segment, that is no
  leading, trailing or doubled slash. The rendered forest has one leaf node for each leaf
  of the hierarchy: the node of its entry, below folder nodes labelled with the segments
  before the last.
\<close>

theorem hierarchy_leaf_paths:
  "(\<forall>(p, c) \<in> set (leaves (buildRoot cs cwd)).
      c \<in> set cs \<and>
      p = filter (\<lambda>s. s \<noteq> []) (split CHR ''/'' (relativePath cwd (destination c))) \<and>
      p \<noteq> [] \<and>
      ([] \<notin> set (split CHR ''/'' (relativePath cwd (destination c))) \<longrightarrow>
         join CHR ''/'' p = relativePath cwd (destination c))) \<and>
   distinct (map fst (leaves (buildRoot cs cwd))) \<and>
   mset (forestLeaves (buildDirectoryHierarchy localeCompare cs cwd)) =
     mset (map (\<lambda>(p, c). (butlast p, nodeFromChange c)) (leaves (buildRoot cs cwd))) \<and>
   (\<forall>(fs, n) \<in> set (forestLeaves (buildDirectoryHierarchy localeCompare cs cwd)).
      \<exists>c \<in> set cs. n = nodeFromChange c \<and> targetPath (item n) = Some (destination c) \<and>
        fs = butlast (pathParts cwd (destination c)))"
proof -
  have a0: "\<And>p c. (p, c) \<in> set (leaves (buildRoot cs cwd)) \<Longrightarrow>
      c \<in> set cs \<and>
      p = filter (\<lambda>s. s \<noteq> []) (split CHR ''/'' (relativePath cwd (destination c))) \<and>
      p \<noteq> [] \<and>
      ([] \<notin> set (split CHR ''/'' (relativePath cwd (destination c))) \<longrightarrow>
         join CHR ''/'' p = relativePath cwd (destination c))"
  proof -
    fix p c assume leaf: "(p, c) \<in> set (leaves (buildRoot cs cwd))"
    then have m: "c \<in> set cs" and p: "p = pathParts cwd (destination c)"
      using leaves_buildRoot by blast+
    have f: "p = filter (\<lambda>s. s \<noteq> []) (split CHR ''/'' (relativePath cwd (destination c)))"
      by (simp add: p pathParts_def)
    have n: "p \<noteq> []"
      using leaf leaves_head by blast
    have j: "[] \<notin> set (split CHR ''/'' (relativePath cwd (destination c))) \<longrightarrow>
        join CHR ''/'' p = relativePath cwd (destination c)"
      by (simp add: p join_pathParts)
    from m f n j show "c \<in> set cs \<and>
      p = filter (\<lambda>s. s \<noteq> []) (split CHR ''/'' (relativePath cwd (destination c))) \<and>
      p \<noteq> [] \<and>
      ([] \<notin> set (split CHR ''/'' (relativePath cwd (destination c))) \<longrightarrow>
         join CHR ''/'' p = relativePath cwd (destination c))"
      by blast
  qed
  have a: "\<forall>(p, c) \<in> set (leaves (buildRoot cs cwd)).
      c \<in> set cs \<and>
      p = filter (\<lambda>s. s \<noteq> []) (split CHR ''/'' (relativePath cwd (destination c))) \<and>
      p \<noteq> [] \<and>
      ([] \<notin> set (split CHR ''/'' (relativePath cwd (destination c))) \<longrightarrow>
         join CHR ''/'' p = relativePath cwd (destination c))"
    using a0 by blast
  have b: "distinct (map fst (leaves (buildRoot cs cwd)))"
    by (rule distinct_leaves [OF distinctKeys_buildRoot])
  have c: "mset (forestLeaves (buildDirectoryHierarchy localeCompare cs cwd)) =
     mset (map (\<lambda>(p, c). (butlast p, nodeFromChange c)) (leaves (buildRoot cs cwd)))"
    by (simp only: buildDirectoryHierarchy_def forestLeaves_toNodes)
  have d: "\<forall>(fs, n) \<in> set (forestLeaves (buildDirectoryHierarchy localeCompare cs cwd)).
      \<exists>c \<in> set cs. n = nodeFromChange c \<and> targetPath (item n) = Some (destination c) \<and>
        fs = butlast (pathParts cwd (destination c))"
    using forestLeaves_buildDirectoryHierarchy [of _ _ localeCompare cs cwd]
      targetPath_nodeFromChange
    by blast
  from a b c d show ?thesis by blast
qed

theorem hierarchy_leaf_paths_witness:
  "([''b'', ''c.txt''], entry ''/w/b/c.txt'' ''create'')
     \<in> set (leaves (buildRoot [entry ''/w/a.txt'' ''modify'', entry ''/w/b/c.txt'' ''create'']
                      (Some ''/w''))) \<and>
   [] \<notin> set (split CHR ''/''
              (relativePath (Some ''/w'') (destination (entry ''/w/b/c.txt'' ''create'')))) \<and>
   join CHR ''/'' [''b'', ''c.txt''] =
     relativePath (Some ''/w'') (destination (entry ''/w/b/c.txt'' ''create'')) \<and>
   relativePath (Some ''/w'') (destination (entry ''/w/b/c.txt'' ''create'')) = ''b/c.txt''"
proof -
  let ?cs = "[entry ''/w/a.txt'' ''modify'', entry ''/w/b/c.txt'' ''create'']"
  let ?c = "entry ''/w/b/c.txt'' ''create''"
  have rp: "relativePath (Some ''/w'') (destination ?c) = ''b/c.txt''"
    by (simp add: relativePath_def startsWith_def substring_def entry_def)
  have ev: "leaves (buildRoot ?cs (Some ''/w'')) =
      [([''a.txt''], entry ''/w/a.txt'' ''modify''), ([''b'', ''c.txt''], ?c)]"
    by (simp add: buildRoot_def pathParts_def relativePath_def startsWith_def substring_def
        entry_def insertParts_step insertParts_last set_key_def nextMap_def get_def)
  have mem: "([''b'', ''c.txt''], ?c) \<in> set (leaves (buildRoot ?cs (Some ''/w'')))"
    unfolding ev by simp
  have ne: "[] \<notin> set (split CHR ''/'' (relativePath (Some ''/w'') (destination ?c)))"
    unfolding rp by simp
  from hierarchy_leaf_paths [of ?cs "Some ''/w''"] mem ne
  have "join CHR ''/'' [''b'', ''c.txt''] = relativePath (Some ''/w'') (destination ?c)"
    by blast
  with mem ne rp show ?thesis by blast
qed

text \<open>
  C1 as stated fails for an absolute destination outside \<open>cwd\<close>, which is kept whole: the
  leading slash gives an empty first segment, the builder drops it, and the joined path of
  the leaf is \<open>w/a.txt\<close>, not the destination \<open>/w/a.txt\<close>.
\<close>

theorem hierarchy_leaf_paths_counterexample:
  "([''w'', ''a.txt''], entry ''/w/a.txt'' ''modify'')
     \<in> set (leaves (buildRoot [entry ''/w/a.txt'' ''modify''] (Some ''/x''))) \<and>
   relativePath (Some ''/x'') (destination (entry ''/w/a.txt'' ''modify'')) = ''/w/a.txt'' \<and>
   join CHR ''/'' [''w'', ''a.txt''] = ''w/a.txt'' \<and>
   join CHR ''/'' [''w'', ''a.txt''] \<noteq>
     relativePath (Some ''/x'') (destination (entry ''/w/a.txt'' ''modify''))"
  by (simp add: buildRoot_def pathParts_def relativePath_def startsWith_def substring_def
        entry_def insertParts_step insertParts_last set_key_def nextMap_def get_def)

section \<open>C2: the sides of a diff\<close>




section \<open>C3: grouping by operation\<close>

text \<open>
  C3. For every change list, every entry stored by \<open>groupByOperation\<close> under a key has that
  key as its operation; the multiset union of all groups is the input list (nothing is
  dropped or duplicated); each group holds the entries of its operation in input order; the
  keys are distinct and appear in the order in which the operation strings were first seen,
  whatever the strings are (an unrecognised operation forms a group of its own).
\<close>

theorem groupByOperation_partition:
  "(\<forall>(k, es) \<in> set (groupByOperation cs). \<forall>c \<in> set es. operation c = k) \<and>
   mset (concat (map snd (groupByOperation cs))) = mset cs \<and>
   (\<forall>(k, es) \<in> set (groupByOperation cs). es = filter (\<lambda>c. operation c = k) cs \<and> es \<noteq> []) \<and>
   map fst (groupByOperation cs) = firstSeen (map operation cs) \<and>
   distinct (map fst (groupByOperation cs)) \<and>
   (\<forall>c \<in> set cs. get (groupByOperation cs) (operation c) =
       Some (filter (\<lambda>d. operation d = operation c) cs))"
proof -
  let ?ks = "firstSeen (map operation cs)"
  have cf: "groupByOperation cs = map (\<lambda>k. (k, filter (\<lambda>c. operation c = k) cs)) ?ks"
    by (rule groupByOperation_closed_form)
  have keys: "map fst (groupByOperation cs) = ?ks"
    by (simp add: cf comp_def)
  have c1: "\<forall>(k, es) \<in> set (groupByOperation cs). \<forall>c \<in> set es. operation c = k"
    by (subst cf) auto
  have "map snd (groupByOperation cs) = map (\<lambda>k. filter (\<lambda>c. operation c = k) cs) ?ks"
    by (simp add: cf comp_def)
  then have c2: "mset (concat (map snd (groupByOperation cs))) = mset cs"
    using mset_concat_groups [of ?ks operation cs]
    by (simp add: distinct_firstSeen set_firstSeen)
  have c3: "\<forall>(k, es) \<in> set (groupByOperation cs).
              es = filter (\<lambda>c. operation c = k) cs \<and> es \<noteq> []"
    by (subst cf) (auto simp: set_firstSeen filter_empty_conv)
  have c5: "distinct (map fst (groupByOperation cs))"
    by (simp add: keys distinct_firstSeen)
  have c6: "\<forall>c \<in> set cs. get (groupByOperation cs) (operation c) =
              Some (filter (\<lambda>d. operation d = operation c) cs)"
  proof
    fix c assume "c \<in> set cs"
    then have "operation c \<in> set ?ks"
      by (simp add: set_firstSeen)
    then have "(operation c, filter (\<lambda>d. operation d = operation c) cs)
                 \<in> set (groupByOperation cs)"
      by (subst cf) auto
    with c5 show "get (groupByOperation cs) (operation c) =
              Some (filter (\<lambda>d. operation d = operation c) cs)"
      by (simp add: get_def)
  qed
  from c1 c2 c3 keys c5 c6 show ?thesis by blast
qed

theorem groupByOperation_partition_witness:
  "groupByOperation [entry ''/w/a'' ''modify'', entry ''/w/b'' ''zap'', entry ''/w/c'' ''modify'']
     = [(''modify'', [entry ''/w/a'' ''modify'', entry ''/w/c'' ''modify'']),
        (''zap'', [entry ''/w/b'' ''zap''])] \<and>
   mset (concat (map snd (groupByOperation
        [entry ''/w/a'' ''modify'', entry ''/w/b'' ''zap'', entry ''/w/c'' ''modify''])))
     = mset [entry ''/w/a'' ''modify'', entry ''/w/b'' ''zap'', entry ''/w/c'' ''modify''] \<and>
   get (groupByOperation
        [entry ''/w/a'' ''modify'', entry ''/w/b'' ''zap'', entry ''/w/c'' ''modify'']) ''zap''
     = Some [entry ''/w/b'' ''zap'']"
proof -
  let ?cs = "[entry ''/w/a'' ''modify'', entry ''/w/b'' ''zap'', entry ''/w/c'' ''modify'']"
  have ev: "groupByOperation ?cs =
      [(''modify'', [entry ''/w/a'' ''modify'', entry ''/w/c'' ''modify'']),
       (''zap'', [entry ''/w/b'' ''zap''])]"
    by (simp add: groupByOperation_def group_step_def has_def set_key_def entry_def Let_def)
  have m: "mset (concat (map snd (groupByOperation ?cs))) = mset ?cs"
    using groupByOperation_partition [of ?cs] by (rule conjunct1 [OF conjunct2])
  have g: "get (groupByOperation ?cs) ''zap'' = Some [entry ''/w/b'' ''zap'']"
    unfolding ev by (simp add: get_def)
  from ev m g show ?thesis by (intro conjI)
qed

section \<open>C4: patterns as restricted globs\<close>

text \<open>
  C4. The matcher is meant to treat every character of a pattern other than \<open>*\<close> as a
  literal, by escaping the regular-expression syntax characters. The class of escaped
  characters leaves out the question mark: in the pattern \<open>a?\<close> it stays a quantifier, so
  the pattern selects the destination \<open>a\<close> and not the destination \<open>a?\<close>, and the pattern
  \<open>?\<close> makes \<open>new RegExp\<close> throw.
\<close>

theorem glob_question_mark_not_literal:
  "globToRegexSource ''a?'' = ''^a?$'' \<and>
   globToRegex ''a?'' = Some [(RxChar CHR ''a'', Optional)] \<and>
   filterChangesByPatterns [entry ''a?'' ''modify'', entry ''a'' ''modify''] [''a?'']
     = Some [entry ''a'' ''modify''] \<and>
   filterChangesByPatterns [entry ''?'' ''modify''] [''?''] = None"
  by code_simp

section \<open>C5: collisions between leaves and interior nodes\<close>

text \<open>
  C5. When a segment is needed both as a leaf and as an interior node, the later insertion
  wins. Inserting an entry \<open>c\<close> after the entries \<open>cs\<close> puts the leaf \<open>c\<close> at the end of its
  path, whatever was stored there before, an interior subtree included. Where the path of
  \<open>c\<close> passes through a segment that held a leaf \<open>d\<close>, that leaf is replaced by a fresh
  interior node whose only content is the rest of the path of \<open>c\<close>.
\<close>

theorem hierarchy_collision_last_wins:
  "pathParts cwd (destination c) = ps \<Longrightarrow> ps \<noteq> [] \<Longrightarrow>
     lookupPath (buildRoot (cs @ [c]) cwd) ps = Some (Leaf c) \<and>
     (\<forall>qs rs d. ps = qs @ rs \<and> qs \<noteq> [] \<and> rs \<noteq> [] \<and>
         lookupPath (buildRoot cs cwd) qs = Some (Leaf d) \<longrightarrow>
         lookupPath (buildRoot (cs @ [c]) cwd) qs = Some (Dir (insertParts rs c [])) \<and>
         leaves (insertParts rs c []) = [(rs, c)])"
  by (simp add: buildRoot_snoc lookupPath_insertParts lookupPath_through_leaf
      leaves_insertParts_empty)

theorem hierarchy_collision_last_wins_witness:
  "lookupPath (buildRoot ([entry ''/w/a'' ''modify''] @ [entry ''/w/a/b'' ''create'']) (Some ''/w''))
     [''a''] = Some (Dir [(''b'', Leaf (entry ''/w/a/b'' ''create''))]) \<and>
   lookupPath (buildRoot ([entry ''/w/a/b'' ''create''] @ [entry ''/w/a'' ''modify'']) (Some ''/w''))
     [''a''] = Some (Leaf (entry ''/w/a'' ''modify''))"
proof -
  let ?f = "entry ''/w/a'' ''modify''"
  let ?g = "entry ''/w/a/b'' ''create''"
  have pf: "pathParts (Some ''/w'') (destination ?f) = [''a'']"
    by (simp add: pathParts_def relativePath_def startsWith_def substring_def entry_def)
  have pg: "pathParts (Some ''/w'') (destination ?g) = [''a'', ''b'']"
    by (simp add: pathParts_def relativePath_def startsWith_def substring_def entry_def)
  have before: "lookupPath (buildRoot [?f] (Some ''/w'')) [''a''] = Some (Leaf ?f)"
    by (simp add: buildRoot_def pf insertParts_last get_set_key)
  have split_path: "[''a'', ''b''] = [''a''] @ [''b'']"
    by simp
  from hierarchy_collision_last_wins [OF pg, of "[?f]"] before split_path
  have "lookupPath (buildRoot ([?f] @ [?g]) (Some ''/w'')) [''a'']
          = Some (Dir (insertParts [''b''] ?g []))"
    by blast
  then have one: "lookupPath (buildRoot ([?f] @ [?g]) (Some ''/w'')) [''a'']
          = Some (Dir [(''b'', Leaf ?g)])"
    by (simp add: insertParts_last set_key_def)
  from hierarchy_collision_last_wins [OF pf, of "[?g]"]
  have two: "lookupPath (buildRoot ([?g] @ [?f]) (Some ''/w'')) [''a''] = Some (Leaf ?f)"
    by blast
  from one two show ?thesis by (rule conjI)
qed

section \<open>C6: order of groups and of siblings\<close>

text \<open>
  C6. In the rendered tree the operation groups follow the overlay indicator and the
  actions node in the fixed order error, remove, rename, modify, create, then every other
  operation in the order in which it first appears in the change list. Only operations
  with at least one entry have a group. At every level of the hierarchy of a group the
  sibling nodes are the entries of that level in the order of the comparison of their
  names by \<open>localeCompare\<close>, which looks at the name only, not at whether the entry is a
  leaf or an interior node. \<open>localeCompare\<close> is assumed to be a total preorder.
\<close>

theorem group_and_sibling_order:
  assumes total: "\<And>a b. localeCompare a b \<le> 0 \<or> localeCompare b a \<le> 0"
    and trans: "\<And>a b c. localeCompare a b \<le> 0 \<Longrightarrow> localeCompare b c \<le> 0 \<Longrightarrow>
                  localeCompare a c \<le> (0::int)"
  shows
    "statusNodes localeCompare inOverlay hasOrig cwd (Inr changes) =
       (if inOverlay then [buildOverlayIndicatorNode] else []) @
       [buildActionsGroupNode cwd inOverlay hasOrig] @
       map (\<lambda>k. groupNode localeCompare k (filter (\<lambda>c. operation c = k) changes) cwd)
         (expectedGroupOrder changes) \<and>
     (\<forall>k \<in> set (expectedGroupOrder changes).
        filter (\<lambda>c. operation c = k) changes \<noteq> [] \<and>
        op (item (groupNode localeCompare k (filter (\<lambda>c. operation c = k) changes) cwd)) = Some k \<and>
        children (groupNode localeCompare k (filter (\<lambda>c. operation c = k) changes) cwd) =
          Some (toNodes localeCompare (buildRoot (filter (\<lambda>c. operation c = k) changes) (Some cwd)) [])) \<and>
     toNodes localeCompare tree prefix =
       map (\<lambda>(nm, v). case v of
              Dir sub \<Rightarrow> folderNode nm (folderPathOf prefix nm)
                           (toNodes localeCompare sub (folderPathOf prefix nm))
            | Leaf c \<Rightarrow> nodeFromChange c)
         (sortEntries localeCompare tree) \<and>
     sorted_wrt (\<lambda>a b. localeCompare (fst a) (fst b) \<le> 0) (sortEntries localeCompare tree) \<and>
     mset (sortEntries localeCompare tree) = mset tree"
proof -
  have a: "statusNodes localeCompare inOverlay hasOrig cwd (Inr changes) =
       (if inOverlay then [buildOverlayIndicatorNode] else []) @
       [buildActionsGroupNode cwd inOverlay hasOrig] @
       map (\<lambda>k. groupNode localeCompare k (filter (\<lambda>c. operation c = k) changes) cwd)
         (expectedGroupOrder changes)"
    by (rule statusNodes_changes)
  have b: "\<forall>k \<in> set (expectedGroupOrder changes).
        filter (\<lambda>c. operation c = k) changes \<noteq> [] \<and>
        op (item (groupNode localeCompare k (filter (\<lambda>c. operation c = k) changes) cwd)) = Some k \<and>
        children (groupNode localeCompare k (filter (\<lambda>c. operation c = k) changes) cwd) =
          Some (toNodes localeCompare (buildRoot (filter (\<lambda>c. operation c = k) changes) (Some cwd)) [])"
    using expectedGroupOrder_present
    by (simp only: groupNode_op groupNode_children buildDirectoryHierarchy_def) blast
  have c: "toNodes localeCompare tree prefix =
       map (\<lambda>(nm, v). case v of
              Dir sub \<Rightarrow> folderNode nm (folderPathOf prefix nm)
                           (toNodes localeCompare sub (folderPathOf prefix nm))
            | Leaf c \<Rightarrow> nodeFromChange c)
         (sortEntries localeCompare tree)"
    by (rule toNodes.simps)
  have d: "sorted_wrt (\<lambda>a b. localeCompare (fst a) (fst b) \<le> 0) (sortEntries localeCompare tree)"
    by (rule sorted_sortEntries [OF total trans])
  have e: "mset (sortEntries localeCompare tree) = mset tree"
    by (simp add: sortEntries_def mset_sort_by)
  from a b c d e show ?thesis by blast
qed

theorem group_and_sibling_order_witness:
  "map (label \<circ> item)
     (statusNodes codeUnitCompare False False ''/w''
        (Inr [entry ''/w/z.txt'' ''create'', entry ''/w/a.txt'' ''zap'',
              entry ''/w/b.txt'' ''remove'', entry ''/w/c/d'' ''create'']))
     = [''Actions'', ''remove (1)'', ''create (2)'', ''zap (1)''] \<and>
   map (label \<circ> item)
     (toNodes codeUnitCompare
        (buildRoot [entry ''/w/z.txt'' ''create'', entry ''/w/c/d'' ''create''] (Some ''/w'')) [])
     = [''c'', ''/w/z.txt'']"
proof -
  let ?cs = "[entry ''/w/z.txt'' ''create'', entry ''/w/a.txt'' ''zap'',
              entry ''/w/b.txt'' ''remove'', entry ''/w/c/d'' ''create'']"
  let ?tree = "buildRoot [entry ''/w/z.txt'' ''create'', entry ''/w/c/d'' ''create''] (Some ''/w'')"
  have total: "\<And>a b. codeUnitCompare a b \<le> 0 \<or> codeUnitCompare b a \<le> 0"
    by (auto simp: codeUnitCompare_def)
  have trans: "\<And>a b c. codeUnitCompare a b \<le> 0 \<Longrightarrow> codeUnitCompare b c \<le> 0 \<Longrightarrow>
      codeUnitCompare a c \<le> 0"
    by (auto simp: codeUnitCompare_def split: if_splits)
  note t = group_and_sibling_order [OF total trans, where inOverlay = False and hasOrig = False
      and cwd = "''/w''" and changes = ?cs and tree = ?tree and prefix = "[]"]
  have ord: "expectedGroupOrder ?cs = [''remove'', ''create'', ''zap'']"
    by (simp add: expectedGroupOrder_def entry_def)
  have lab: "\<And>k list. label (item (groupNode codeUnitCompare k list ''/w'')) =
      k @ '' ('' @ digits (length list) @ '')''"
    by (simp add: groupNode_def setChildren_def newSandboxNode_def)
  have dig: "digits (Suc 0) = ''1''" "digits (Suc (Suc 0)) = ''2''"
    by code_simp+
  have act: "label (item (buildActionsGroupNode ''/w'' False False)) = ''Actions''"
    by (simp add: buildActionsGroupNode_def setChildren_def updItem_def newSandboxNode_def)
  from t have "statusNodes codeUnitCompare False False ''/w'' (Inr ?cs) =
       (if False then [buildOverlayIndicatorNode] else []) @
       [buildActionsGroupNode ''/w'' False False] @
       map (\<lambda>k. groupNode codeUnitCompare k (filter (\<lambda>c. operation c = k) ?cs) ''/w'')
         (expectedGroupOrder ?cs)"
    by (rule conjunct1)
  note step = this
  have one: "map (label \<circ> item) (statusNodes codeUnitCompare False False ''/w'' (Inr ?cs))
      = [''Actions'', ''remove (1)'', ''create (2)'', ''zap (1)'']"
    unfolding step ord by (simp add: lab act dig entry_def)
  have tree: "?tree = [(''z.txt'', Leaf (entry ''/w/z.txt'' ''create'')),
                       (''c'', Dir [(''d'', Leaf (entry ''/w/c/d'' ''create''))])]"
    by (simp add: buildRoot_def pathParts_def relativePath_def startsWith_def substring_def
        entry_def insertParts_step insertParts_last set_key_def nextMap_def get_def)
  have srt: "sortEntries codeUnitCompare ?tree =
      [(''c'', Dir [(''d'', Leaf (entry ''/w/c/d'' ''create''))]),
       (''z.txt'', Leaf (entry ''/w/z.txt'' ''create''))]"
    unfolding tree by (simp add: sortEntries_def sort_by_def codeUnitCompare_def)
  from t have "toNodes codeUnitCompare ?tree [] =
       map (\<lambda>(nm, v). case v of
              Dir sub \<Rightarrow> folderNode nm (folderPathOf [] nm)
                           (toNodes codeUnitCompare sub (folderPathOf [] nm))
            | Leaf c \<Rightarrow> nodeFromChange c)
         (sortEntries codeUnitCompare ?tree)"
    by (rule conjunct1 [OF conjunct2 [OF conjunct2]])
  then have two: "map (label \<circ> item) (toNodes codeUnitCompare ?tree []) = [''c'', ''/w/z.txt'']"
    unfolding srt
    by (simp add: folderNode_def setChildren_def updItem_def newSandboxNode_def nodeFromChange_def
        entry_def)
  from one two show ?thesis by (rule conjI)
qed

section \<open>C7: failures of the status and config queries\<close>

text \<open>
  C7 (as amended). \<open>fetchStatus\<close> and \<open>fetchConfig\<close> throw exactly when the captured
  \<open>stdout\<close> is not valid JSON or is the JSON value \<open>null\<close>; the message of the error ends
  with the captured \<open>stderr\<close>, or with \<open>stdout\<close> when \<open>stderr\<close> is empty. The exit code
  plays no part: changing the code of the \<open>close\<close> event changes neither result. On a parsed
  value other than \<open>null\<close> whose \<open>changes\<close> member is missing or \<open>null\<close>, \<open>fetchStatus\<close>
  returns the empty list.
\<close>

theorem fetch_throws_on_unparsable_or_null:
  "(isl (fetchStatus env cwd) \<longleftrightarrow>
      jsonParse env (stdout (statusRun env cwd)) = None \<or>
      jsonParse env (stdout (statusRun env cwd)) = Some JNull) \<and>
   (isl (fetchConfig env cwd) \<longleftrightarrow>
      jsonParse env (stdout (configRun env cwd)) = None \<or>
      jsonParse env (stdout (configRun env cwd)) = Some JNull) \<and>
   (isl (fetchStatus env cwd) \<longrightarrow>
      fetchStatus env cwd = Inl (Error (''Failed to parse sandbox status JSON: '' @
        (if stderr (statusRun env cwd) \<noteq> [] then stderr (statusRun env cwd)
         else stdout (statusRun env cwd))))) \<and>
   (isl (fetchConfig env cwd) \<longrightarrow>
      fetchConfig env cwd = Inl (Error (''Failed to parse sandbox config JSON: '' @
        (if stderr (configRun env cwd) \<noteq> [] then stderr (configRun env cwd)
         else stdout (configRun env cwd))))) \<and>
   fetchStatus (withCloseCode k env) cwd = fetchStatus env cwd \<and>
   fetchConfig (withCloseCode k env) cwd = fetchConfig env cwd \<and>
   (\<forall>v. jsonParse env (stdout (statusRun env cwd)) = Some v \<and> v \<noteq> JNull \<and>
        (getProp v ''changes'' = Some None \<or> getProp v ''changes'' = Some (Some JNull)) \<longrightarrow>
        fetchStatus env cwd = Inr (JArray []))"
  using fetchStatus_isl [of env cwd] fetchConfig_isl [of env cwd]
    fetchStatus_message [of env cwd] fetchConfig_message [of env cwd]
    fetch_withCloseCode [of k env cwd] fetchStatus_no_changes [of env cwd]
  unfolding parseError_message
  by blast

theorem fetch_throws_on_unparsable_or_null_witness:
  "fetchStatus (exampleEnv ''{}'' ''warning'' (Some 3)) None = Inr (JArray []) \<and>
   fetchStatus (exampleEnv ''oops'' ''boom'' (Some 0)) None =
     Inl (Error ''Failed to parse sandbox status JSON: boom'') \<and>
   fetchConfig (exampleEnv ''oops'' '''' (Some 0)) None =
     Inl (Error ''Failed to parse sandbox config JSON: oops'')"
proof -
  let ?e1 = "exampleEnv ''{}'' ''warning'' (Some 3)"
  let ?e2 = "exampleEnv ''oops'' ''boom'' (Some 0)"
  let ?e3 = "exampleEnv ''oops'' '''' (Some 0)"
  have p1: "jsonParse ?e1 (stdout (statusRun ?e1 None)) = Some (JObject [])"
    by (simp add: exampleEnv_def statusRun_def execFile_def parseExample_def)
  have g1: "getProp (JObject []) ''changes'' = Some None"
    by (simp add: getProp_def)
  from fetch_throws_on_unparsable_or_null [of ?e1 None] p1 g1
  have a: "fetchStatus ?e1 None = Inr (JArray [])"
    by blast
  have p2: "jsonParse ?e2 (stdout (statusRun ?e2 None)) = None"
    by (simp add: exampleEnv_def statusRun_def execFile_def parseExample_def)
  have s2: "stderr (statusRun ?e2 None) = ''boom''"
    by (simp add: exampleEnv_def statusRun_def execFile_def)
  from fetch_throws_on_unparsable_or_null [of ?e2 None] p2
  have "fetchStatus ?e2 None = Inl (Error (''Failed to parse sandbox status JSON: '' @
        (if stderr (statusRun ?e2 None) \<noteq> [] then stderr (statusRun ?e2 None)
         else stdout (statusRun ?e2 None))))"
    by blast
  then have b: "fetchStatus ?e2 None = Inl (Error ''Failed to parse sandbox status JSON: boom'')"
    by (simp add: s2)
  have p3: "jsonParse ?e3 (stdout (configRun ?e3 None)) = None"
    by (simp add: exampleEnv_def configRun_def execFile_def parseExample_def)
  have s3: "stderr (configRun ?e3 None) = []" "stdout (configRun ?e3 None) = ''oops''"
    by (simp_all add: exampleEnv_def configRun_def execFile_def)
  from fetch_throws_on_unparsable_or_null [of ?e3 None] p3
  have "fetchConfig ?e3 None = Inl (Error (''Failed to parse sandbox config JSON: '' @
        (if stderr (configRun ?e3 None) \<noteq> [] then stderr (configRun ?e3 None)
         else stdout (configRun ?e3 None))))"
    by blast
  then have c: "fetchConfig ?e3 None = Inl (Error ''Failed to parse sandbox config JSON: oops'')"
    by (simp add: s3)
  from a b c show ?thesis by blast
qed

text \<open>
  C7 as stated fails on the output \<open>null\<close>: it is valid JSON, \<open>JSON.parse\<close> returns \<open>null\<close>,
  the read of a property of \<open>null\<close> throws inside the \<open>try\<close> block, and both functions throw
  their parse error.
\<close>

theorem fetch_throws_on_valid_json_null:
  "jsonParse (exampleEnv ''null'' '''' (Some 0))
      (stdout (statusRun (exampleEnv ''null'' '''' (Some 0)) None)) = Some JNull \<and>
   fetchStatus (exampleEnv ''null'' '''' (Some 0)) None =
      Inl (Error ''Failed to parse sandbox status JSON: null'') \<and>
   fetchConfig (exampleEnv ''null'' '''' (Some 0)) None =
      Inl (Error ''Failed to parse sandbox config JSON: null'')"
  by (simp add: exampleEnv_def statusRun_def fetchStatus_def fetchConfig_def execFile_def
      parseExample_def getProp_def orElse_def statusParseError_def configParseError_def)

section \<open>C8: failures of the mutating commands\<close>

text \<open>
  C8. Each of \<open>runAccept\<close>, \<open>runReject\<close>, \<open>runSync\<close>, \<open>runStop\<close> and \<open>runDelete\<close> throws
  exactly when the exit code of the process it spawned is a number other than zero; the
  message is the captured \<open>stderr\<close>, or the captured \<open>stdout\<close> when \<open>stderr\<close> is empty.
  Otherwise the call returns, whatever the output was.
\<close>

theorem run_commands_follow_exit_code:
  "runAccept env patterns cwd =
     exitCodeRule (spawn env (binaryPath env) (baseArgs env @ [''accept''] @ patterns) cwd) () \<and>
   runReject env patterns cwd =
     exitCodeRule (spawn env (binaryPath env) (baseArgs env @ [''reject''] @ patterns) cwd) () \<and>
   runSync env cwd =
     exitCodeRule (spawn env (binaryPath env) (baseArgs env @ [''sync'']) cwd) () \<and>
   runStop env cwd =
     exitCodeRule (spawn env (binaryPath env) (baseArgs env @ [''stop'']) cwd) () \<and>
   runDelete env cwd =
     exitCodeRule (spawn env (binaryPath env) (baseArgs env @ [''delete'', ''-y'']) cwd) ()"
proof -
  have r: "\<And>res child v. res = \<lparr>stdout = stdoutChunks (events child),
                  stderr = stderrChunks (events child),
                  code = (case closeCode child of None \<Rightarrow> 0 | Some n \<Rightarrow> n)\<rparr> \<Longrightarrow>
      (if code res \<noteq> 0 then Inl (Error (orElse (stderr res) (stdout res))) else Inr v) =
      exitCodeRule child v"
    by (simp add: exitCodeRule_def orElse_def split: option.splits)
  show ?thesis
    unfolding runAccept_def runReject_def runSync_def runStop_def runDelete_def Let_def
    by (intro conjI r) (simp_all only: execFile_def Let_def)
qed

section \<open>C9: termination by a signal\<close>

text \<open>
  C9. When the \<open>close\<close> event of the child reports no exit code (the process was
  terminated by a signal), \<open>execFile\<close> reports the code 0, so \<open>runAccept\<close>, \<open>runReject\<close>,
  \<open>runDiff\<close>, \<open>runSync\<close>, \<open>runStop\<close> and \<open>runDelete\<close> return without an error, and
  \<open>spawnDiffStream\<close> calls its close handler with 0.
\<close>

theorem signal_termination_is_success:
  "(closeCode (spawn env bin args cwd) = None \<longrightarrow> code (execFile env bin args cwd) = 0) \<and>
   (closeCode (spawn env (binaryPath env) (baseArgs env @ [''accept''] @ patterns) cwd) = None \<longrightarrow>
      runAccept env patterns cwd = Inr ()) \<and>
   (closeCode (spawn env (binaryPath env) (baseArgs env @ [''reject''] @ patterns) cwd) = None \<longrightarrow>
      runReject env patterns cwd = Inr ()) \<and>
   (closeCode (spawn env (binaryPath env) (baseArgs env @ [''diff''] @ patterns) cwd) = None \<longrightarrow>
      runDiff env patterns cwd =
        Inr (stdoutChunks (events (spawn env (binaryPath env) (baseArgs env @ [''diff''] @ patterns) cwd))) \<and>
      spawnDiffStream env patterns \<lparr>onStdout = a, onStderr = b, onClose = Some h\<rparr> cwd s =
        h 0 (deliver \<lparr>onStdout = a, onStderr = b, onClose = Some h\<rparr>
               (events (spawn env (binaryPath env) (baseArgs env @ [''diff''] @ patterns) cwd)) s)) \<and>
   (closeCode (spawn env (binaryPath env) (baseArgs env @ [''sync'']) cwd) = None \<longrightarrow>
      runSync env cwd = Inr ()) \<and>
   (closeCode (spawn env (binaryPath env) (baseArgs env @ [''stop'']) cwd) = None \<longrightarrow>
      runStop env cwd = Inr ()) \<and>
   (closeCode (spawn env (binaryPath env) (baseArgs env @ [''delete'', ''-y'']) cwd) = None \<longrightarrow>
      runDelete env cwd = Inr ())"
  by (simp add: runAccept_def runReject_def runDiff_def runSync_def runStop_def runDelete_def
      spawnDiffStream_def execFile_def call_def Let_def)

theorem signal_termination_is_success_witness:
  "closeCode (spawn (exampleEnv ''partial'' ''Killed'' None) ''sandbox'' [''accept'', ''x.txt''] None) = None \<and>
   runAccept (exampleEnv ''partial'' ''Killed'' None) [''x.txt''] None = Inr () \<and>
   runDiff (exampleEnv ''partial'' ''Killed'' None) [''x.txt''] None = Inr ''partial'' \<and>
   spawnDiffStream (exampleEnv ''partial'' ''Killed'' None) [''x.txt'']
     \<lparr>onStdout = None, onStderr = None, onClose = Some (\<lambda>c log. log @ [c])\<rparr> None [] = [0]"
proof -
  let ?e = "exampleEnv ''partial'' ''Killed'' None"
  let ?h = "\<lparr>onStdout = None, onStderr = None, onClose = Some (\<lambda>c log. log @ [c :: int])\<rparr>"
  have k: "\<And>args. closeCode (spawn ?e (binaryPath ?e) args None) = None"
    by (simp add: exampleEnv_def)
  have k': "closeCode (spawn ?e ''sandbox'' [''accept'', ''x.txt''] None) = None"
    by (simp add: exampleEnv_def)
  have ev: "\<And>args. events (spawn ?e (binaryPath ?e) args None)
              = [StdoutData ''partial'', StderrData ''Killed'']"
    by (simp add: exampleEnv_def)
  from signal_termination_is_success
    [of ?e "binaryPath ?e" "[]" None "[''x.txt'']" None None "\<lambda>c log. log @ [c]" "[]"]
  have all: "runAccept ?e [''x.txt''] None = Inr () \<and>
      runDiff ?e [''x.txt''] None =
        Inr (stdoutChunks (events (spawn ?e (binaryPath ?e) (baseArgs ?e @ [''diff''] @ [''x.txt'']) None))) \<and>
      spawnDiffStream ?e [''x.txt''] ?h None [] =
        (deliver ?h (events (spawn ?e (binaryPath ?e) (baseArgs ?e @ [''diff''] @ [''x.txt'']) None)) []) @ [0]"
    by (simp only: k simp_thms)
  from all have a: "runAccept ?e [''x.txt''] None = Inr ()"
    by (rule conjunct1)
  from all have d: "runDiff ?e [''x.txt''] None =
        Inr (stdoutChunks (events (spawn ?e (binaryPath ?e) (baseArgs ?e @ [''diff''] @ [''x.txt'']) None)))"
    by (rule conjunct1 [OF conjunct2])
  from all have s: "spawnDiffStream ?e [''x.txt''] ?h None [] =
        (deliver ?h (events (spawn ?e (binaryPath ?e) (baseArgs ?e @ [''diff''] @ [''x.txt'']) None)) []) @ [0]"
    by (rule conjunct2 [OF conjunct2])
  from d have d': "runDiff ?e [''x.txt''] None = Inr ''partial''"
    by (simp add: ev)
  from s have s': "spawnDiffStream ?e [''x.txt''] ?h None [] = [0]"
    by (simp add: ev call_def)
  from k' a d' s' show ?thesis by blast
qed

section \<open>C10: no empty names\<close>

text \<open>
  C10. For every change list and \<open>cwd\<close>, no node of the hierarchy, interior or leaf, has
  the empty name: the empty segments that leading, trailing and doubled slashes produce are
  discarded before insertion.
\<close>

theorem hierarchy_no_empty_names: "[] \<notin> set (names (buildRoot cs cwd))"
  using names_buildRoot [of "[]" cs cwd] pathParts_nonempty by blast

end
